theory Spec2Isabelle
  imports Main "HOL-Library.Stream"
begin

section \<open>The board simulation of Game.cpp\<close>

text \<open>
  The model covers the stateful part of \<^verbatim>\<open>Game.cpp\<close>: the tail of the constructor
  \<^verbatim>\<open>Game::Game\<close> that sets up the board, \<^verbatim>\<open>Game::handle_event\<close> and \<^verbatim>\<open>Game::update\<close>.
  Shader set-up, mesh loading and \<^verbatim>\<open>Game::draw\<close> do not write any of the fields below.
\<close>

subsection \<open>Data\<close>

text \<open>
  \<^verbatim>\<open>board[x][y]\<close> is an array of arrays of \<^verbatim>\<open>int\<close>, first index the column, second the
  row. It is modelled as a function of the two indices; only the indices below
  \<^verbatim>\<open>board_size\<close> stand for cells of the array. The cell codes are the integers the
  source writes: \<^verbatim>\<open>-1\<close>, \<^verbatim>\<open>0\<close>, \<^verbatim>\<open>1\<close>, \<^verbatim>\<open>2\<close>.
\<close>

type_synonym board = "nat \<Rightarrow> nat \<Rightarrow> int"

definition EMPTY :: int where "EMPTY = -1"
definition SHIP :: int where "SHIP = 0"
definition STAR :: int where "STAR = 1"
definition BLOCK :: int where "BLOCK = 2"

text \<open>
  Modelled from the spec: \<^verbatim>\<open>board_size\<close> is declared in \<^verbatim>\<open>Game.hpp\<close>, which is not part of
  the sources at hand; the grid is 9 by 9, which agrees with the literals \<^verbatim>\<open>8\<close> and
  \<^verbatim>\<open>% 9\<close> of \<^verbatim>\<open>Game.cpp\<close>.
\<close>

definition board_size_x :: nat where "board_size_x = 9"
definition board_size_y :: nat where "board_size_y = 9"

text \<open>
  The fields of \<^verbatim>\<open>Game\<close> that the simulation reads and writes. The counters and the
  game-over flag are compared with and assigned integer literals in the source
  (\<^verbatim>\<open>game_over == 1\<close>, \<^verbatim>\<open>lives == 0\<close>, \<^verbatim>\<open>score == 49\<close>); they are integers here, without
  a bound: a tick changes a counter by at most 1, and nothing below depends on a counter
  wrapping around. \<^verbatim>\<open>ship_x\<close> is only decremented when it is not 0, so a natural number
  holds it. \<^verbatim>\<open>controls.left\<close> and \<^verbatim>\<open>controls.right\<close> are the two pending input flags.
\<close>

record game =
  board :: board
  ship_x :: nat
  ship_y :: nat
  score :: int
  lives :: int
  game_over :: int
  controls_left :: bool
  controls_right :: bool

text \<open>
  \<^verbatim>\<open>rand()\<close> reads and advances a global generator. The model threads the sequence of
  values that \<^verbatim>\<open>rand()\<close> is going to return (each is non-negative) through every
  function that draws: \<^verbatim>\<open>shd\<close> is the next draw, \<^verbatim>\<open>stl\<close> the generator afterwards.
\<close>

type_synonym rng = "nat stream"

text \<open>The assignment \<^verbatim>\<open>board[x][y] = v\<close>.\<close>

definition set_cell :: "board \<Rightarrow> nat \<Rightarrow> nat \<Rightarrow> int \<Rightarrow> board" where
  "set_cell b x y v = b(x := (b x)(y := v))"

text \<open>How many cells of row \<open>y\<close> hold the value \<open>v\<close>.\<close>

definition count_row :: "board \<Rightarrow> nat \<Rightarrow> int \<Rightarrow> nat" where
  "count_row b y v = length (filter (\<lambda>x. b x y = v) [0..<board_size_x])"

subsection \<open>Rejection sampling\<close>

text \<open>
  \<^verbatim>\<open>do { num = rand() % 9; } while (board[num][i] != -1);\<close>
  The loop returns the column it found and the generator after the last draw. It need
  not return: \<open>None\<close> stands for a loop that runs forever.
\<close>

partial_function (option) find_empty :: "board \<Rightarrow> nat \<Rightarrow> rng \<Rightarrow> (nat \<times> rng) option" where
  "find_empty b i rng =
     (let num = shd rng mod 9 in
      if b num i \<noteq> -1 then find_empty b i (stl rng) else Some (num, stl rng))"

text \<open>
  \<^verbatim>\<open>for (uint32_t j = 0; j < n; j++) { do { ... } while (...); board[num][i] = kind; }\<close>
  The first argument counts the iterations that are left.
\<close>

fun place :: "nat \<Rightarrow> int \<Rightarrow> board \<Rightarrow> nat \<Rightarrow> rng \<Rightarrow> (board \<times> rng) option" where
  "place 0 kind b i rng = Some (b, rng)"
| "place (Suc n) kind b i rng =
     (case find_empty b i rng of
        None \<Rightarrow> None
      | Some (num, rng') \<Rightarrow> place n kind (set_cell b num i kind) i rng')"

text \<open>The two placement loops, one after the other: blocks (2), then stars (1).\<close>

definition spawn :: "nat \<Rightarrow> nat \<Rightarrow> board \<Rightarrow> nat \<Rightarrow> rng \<Rightarrow> (board \<times> rng) option" where
  "spawn blocks stars b i rng =
     (case place blocks 2 b i rng of
        None \<Rightarrow> None
      | Some (b', rng') \<Rightarrow> place stars 1 b' i rng')"

subsection \<open>The constructor\<close>

text \<open>
  The body of \<^verbatim>\<open>for (i = 2; i < board_size.y; i++)\<close> for one row:
  \<^verbatim>\<open>blocks = rand()%3+1; stars = rand()%2;\<close> and the two placement loops.
\<close>

definition fill_row :: "board \<Rightarrow> nat \<Rightarrow> rng \<Rightarrow> (board \<times> rng) option" where
  "fill_row b i rng =
     (let blocks = shd rng mod 3 + 1;
          stars = shd (stl rng) mod 2
      in spawn blocks stars b i (stl (stl rng)))"

fun fill_rows :: "nat list \<Rightarrow> board \<Rightarrow> rng \<Rightarrow> (board \<times> rng) option" where
  "fill_rows [] b rng = Some (b, rng)"
| "fill_rows (i # is) b rng =
     (case fill_row b i rng of
        None \<Rightarrow> None
      | Some (b', rng') \<Rightarrow> fill_rows is b' rng')"

text \<open>The nested loop that sets every cell of the array to \<^verbatim>\<open>-1\<close>.\<close>

definition clear_board :: "board \<Rightarrow> board" where
  "clear_board b =
     fold (\<lambda>i b. fold (\<lambda>j b. set_cell b i j (-1)) [0..<board_size_y] b) [0..<board_size_x] b"

text \<open>
  The board part of \<^verbatim>\<open>Game::Game\<close>. The argument \<open>pre\<close> holds the fields as the default
  member initialisers of \<^verbatim>\<open>Game.hpp\<close> leave them (the starting values of \<^verbatim>\<open>score\<close>,
  \<^verbatim>\<open>lives\<close>, \<^verbatim>\<open>game_over\<close> and \<^verbatim>\<open>controls\<close> are not in \<^verbatim>\<open>Game.cpp\<close>); the constructor
  overwrites the board and the ship's position.
\<close>

definition Game :: "game \<Rightarrow> rng \<Rightarrow> (game \<times> rng) option" where
  "Game pre rng =
     (let b0 = clear_board (board pre);
          s1 = pre\<lparr>board := b0, ship_x := 4, ship_y := 0\<rparr>;
          b1 = set_cell (board s1) 4 0 0
      in case fill_rows [2..<board_size_y] b1 rng of
           None \<Rightarrow> None
         | Some (b2, rng') \<Rightarrow> Some (s1\<lparr>board := b2\<rparr>, rng'))"

subsection \<open>Input events\<close>

datatype evt_type = SDL_KEYDOWN | SDL_KEYUP | SDL_OTHER_EVENT
datatype scancode = SDL_SCANCODE_LEFT | SDL_SCANCODE_RIGHT | SDL_SCANCODE_OTHER

record event =
  evt_type :: evt_type
  key_repeat :: bool
  key_scancode :: scancode

text \<open>\<^verbatim>\<open>Game::handle_event\<close>: the returned flag and the state afterwards.\<close>

definition handle_event :: "game \<Rightarrow> event \<Rightarrow> bool \<times> game" where
  "handle_event s evt =
     (if evt_type evt = SDL_KEYDOWN \<and> key_repeat evt then (False, s)
      else if evt_type evt = SDL_KEYDOWN \<or> evt_type evt = SDL_KEYUP then
        (if key_scancode evt = SDL_SCANCODE_LEFT then
           (True, s\<lparr>controls_left := (evt_type evt = SDL_KEYDOWN)\<rparr>)
         else if key_scancode evt = SDL_SCANCODE_RIGHT then
           (True, s\<lparr>controls_right := (evt_type evt = SDL_KEYDOWN)\<rparr>)
         else (False, s))
      else (False, s))"

subsection \<open>One tick\<close>

text \<open>
  \<^verbatim>\<open>board[ship_x][ship_y] = -1; ship_x--; board[ship_x][ship_y] = 0;\<close>
  and the same with \<^verbatim>\<open>ship_x++\<close>. The decrement is only reached with \<^verbatim>\<open>ship_x != 0\<close>.
\<close>

definition move_left :: "game \<Rightarrow> game" where
  "move_left s =
     (let s1 = s\<lparr>board := set_cell (board s) (ship_x s) (ship_y s) (-1)\<rparr>;
          s2 = s1\<lparr>ship_x := ship_x s1 - 1\<rparr>
      in s2\<lparr>board := set_cell (board s2) (ship_x s2) (ship_y s2) 0\<rparr>)"

definition move_right :: "game \<Rightarrow> game" where
  "move_right s =
     (let s1 = s\<lparr>board := set_cell (board s) (ship_x s) (ship_y s) (-1)\<rparr>;
          s2 = s1\<lparr>ship_x := ship_x s1 + 1\<rparr>
      in s2\<lparr>board := set_cell (board s2) (ship_x s2) (ship_y s2) 0\<rparr>)"

text \<open>
  The two tests on \<^verbatim>\<open>board[ship_x][ship_y + 1]\<close> that follow the move: a star scores,
  a block costs a life, and the last life ends the game.
\<close>

definition collide :: "game \<Rightarrow> game" where
  "collide s =
     (let s1 = (if board s (ship_x s) (ship_y s + 1) = 1
                then s\<lparr>score := score s + 1\<rparr> else s)
      in if board s1 (ship_x s1) (ship_y s1 + 1) = 2 then
           (let s2 = s1\<lparr>lives := lives s1 - 1\<rparr>
            in if lives s2 = 0 then s2\<lparr>game_over := 1\<rparr> else s2)
         else s1)"

text \<open>
  \<^verbatim>\<open>for (j = 2; j < board_size.y; j++) for (i = 0; i < board_size.x; i++)
      board[i][j-1] = board[i][j];\<close>
  \<open>copy_row j\<close> is the inner loop for one \<open>j\<close>.
\<close>

definition copy_row :: "nat \<Rightarrow> board \<Rightarrow> board" where
  "copy_row j b = fold (\<lambda>i b. set_cell b i (j - 1) (b i j)) [0..<board_size_x] b"

definition shift_rows :: "board \<Rightarrow> board" where
  "shift_rows b = fold copy_row [2..<board_size_y] b"

text \<open>\<^verbatim>\<open>for (j = 0; j < board_size.x; j++) board[j][8] = -1;\<close>\<close>

definition clear_row8 :: "board \<Rightarrow> board" where
  "clear_row8 b = fold (\<lambda>j b. set_cell b j 8 (-1)) [0..<board_size_x] b"

text \<open>
  The draws \<^verbatim>\<open>blocks = rand()%3+1; stars = rand()%2;\<close>, the clearing of row 8 and the
  two placement loops on row 8.
\<close>

definition respawn :: "board \<Rightarrow> rng \<Rightarrow> (board \<times> rng) option" where
  "respawn b rng =
     (let blocks = shd rng mod 3 + 1;
          stars = shd (stl rng) mod 2
      in spawn blocks stars (clear_row8 b) 8 (stl (stl rng)))"

text \<open>
  What both branches of \<^verbatim>\<open>update\<close> do once the ship has moved (the text of the two
  branches is the same from the first collision test on): collision, shift, respawn.
\<close>

definition advance :: "game \<Rightarrow> rng \<Rightarrow> (game \<times> rng) option" where
  "advance s rng =
     (let s1 = collide s
      in case respawn (shift_rows (board s1)) rng of
           None \<Rightarrow> None
         | Some (b, rng') \<Rightarrow> Some (s1\<lparr>board := b\<rparr>, rng'))"

text \<open>The \<^verbatim>\<open>if / else if\<close> of \<^verbatim>\<open>update\<close>: move left, else move right, else nothing.\<close>

definition movement :: "game \<Rightarrow> rng \<Rightarrow> (game \<times> rng) option" where
  "movement s rng =
     (if controls_left s = True \<and> ship_x s \<noteq> 0 then advance (move_left s) rng
      else if controls_right s = True \<and> ship_x s \<noteq> board_size_x - 1 then
        advance (move_right s) rng
      else Some (s, rng))"

text \<open>
  \<^verbatim>\<open>if (score == 49) game_over = 1; controls.left = false; controls.right = false;\<close>
\<close>

definition finish :: "game \<Rightarrow> game" where
  "finish s =
     (let s1 = (if score s = 49 then s\<lparr>game_over := 1\<rparr> else s)
      in s1\<lparr>controls_left := False, controls_right := False\<rparr>)"

text \<open>
  \<^verbatim>\<open>Game::update\<close>. The argument \<^verbatim>\<open>elapsed\<close> is not used by the source. The first
  statement returns at once when the game is over.
\<close>

definition update :: "game \<Rightarrow> rng \<Rightarrow> (game \<times> rng) option" where
  "update s rng =
     (if game_over s = 1 then Some (s, rng)
      else case movement s rng of
             None \<Rightarrow> None
           | Some (s', rng') \<Rightarrow> Some (finish s', rng'))"

subsection \<open>Reachable states\<close>

text \<open>
  The states a game can be in: the one the constructor returns, and every state that
  \<^verbatim>\<open>handle_event\<close> or \<^verbatim>\<open>update\<close> returns from a reachable one, whatever the event and
  whatever the generator is going to draw.
\<close>

inductive reachable :: "game \<Rightarrow> bool" where
  init: "Game pre rng = Some (s, rng') \<Longrightarrow> reachable s"
| event: "reachable s \<Longrightarrow> handle_event s evt = (r, s') \<Longrightarrow> reachable s'"
| tick: "reachable s \<Longrightarrow> update s rng = Some (s', rng') \<Longrightarrow> reachable s'"

text \<open>
  A tick in which the ship moves: the game is not over, and the left key is pending with
  \<open>ship_x > 0\<close>, or else the right key is pending with \<open>ship_x < 8\<close>. The source tests
  \<^verbatim>\<open>ship_x != 0\<close> and \<^verbatim>\<open>ship_x != board_size.x - 1\<close>; lemma \<open>movement_moves\<close> below shows
  that a tick that moves in this sense takes one of the two branches of \<^verbatim>\<open>update\<close>.
  \<open>new_x\<close> is the ship's column after such a tick.
\<close>

definition moves :: "game \<Rightarrow> bool" where
  "moves s \<longleftrightarrow>
     game_over s \<noteq> 1 \<and>
     ((controls_left s \<and> ship_x s > 0) \<or>
      (\<not> (controls_left s \<and> ship_x s > 0) \<and> controls_right s \<and> ship_x s < 8))"

definition new_x :: "game \<Rightarrow> nat" where
  "new_x s = (if controls_left s \<and> ship_x s > 0 then ship_x s - 1 else ship_x s + 1)"

text \<open>
  The ship is inside the array: \<^verbatim>\<open>ship_y\<close> is 0, as the constructor sets it (no statement
  of \<^verbatim>\<open>Game.cpp\<close> assigns it afterwards), and \<^verbatim>\<open>ship_x\<close> is a column of the grid.
\<close>

definition in_grid :: "game \<Rightarrow> bool" where
  "in_grid s \<longleftrightarrow> ship_x s < board_size_x \<and> ship_y s = 0"

text \<open>The cell at row 1 in the ship's new column, as it is before the tick.\<close>

definition ahead :: "game \<Rightarrow> int" where
  "ahead s = board s (new_x s) 1"

text \<open>
  The state right after the collision tests of a tick in which the ship moves, before
  the rows are shifted.
\<close>

definition after_collision :: "game \<Rightarrow> game" where
  "after_collision s =
     collide (if controls_left s = True \<and> ship_x s \<noteq> 0 then move_left s else move_right s)"

text \<open>Row 0 holds the ship in column \<open>ship_x\<close> and nothing else.\<close>

definition ship_row :: "game \<Rightarrow> bool" where
  "ship_row s \<longleftrightarrow>
     ship_y s = 0 \<and> ship_x s < board_size_x \<and>
     (\<forall>x < board_size_x. board s x 0 = (if x = ship_x s then SHIP else EMPTY))"

text \<open>
  A sequence of draws in which every column keeps coming back: after any number of
  draws, each column 0..8 is drawn again.
\<close>

definition recurring :: "rng \<Rightarrow> bool" where
  "recurring rng \<longleftrightarrow> (\<forall>m. \<forall>c < 9. \<exists>n. sdrop m rng !! n mod 9 = c)"

subsection \<open>Concrete states\<close>

text \<open>The generator whose every draw is 0.\<close>

definition zeros :: rng where
  "zeros = siterate id 0"

text \<open>
  \<open>state_at x l r\<close>: the ship alone on the board in column \<open>x\<close>, three lives, no
  score, the two input flags as given.
\<close>

definition state_at :: "nat \<Rightarrow> bool \<Rightarrow> bool \<Rightarrow> game" where
  "state_at x l r =
     \<lparr>board = (\<lambda>c y. if c = x \<and> y = 0 then 0 else -1), ship_x = x, ship_y = 0,
      score = 0, lives = 3, game_over = 0, controls_left = l, controls_right = r\<rparr>"

text \<open>
  A game about to be won: the ship in column 4 with the right key pending and the score
  at 48; a block and a star in row 1 (columns 3 and 5) and in row 2 (columns 3 and 6).
\<close>

definition demo_board :: board where
  "demo_board =
     (\<lambda>x y. if x = 4 \<and> y = 0 then 0
            else if (x = 5 \<and> y = 1) \<or> (x = 6 \<and> y = 2) then 1
            else if x = 3 \<and> (y = 1 \<or> y = 2) then 2
            else -1)"

definition demo_state :: game where
  "demo_state =
     \<lparr>board = demo_board, ship_x = 4, ship_y = 0, score = 48, lives = 3, game_over = 0,
      controls_left = False, controls_right = True\<rparr>"

text \<open>
  Draws that ask for two blocks and one star, and then the columns 3, 3 (taken by then),
  5 and 0.
\<close>

definition demo_rng :: rng where
  "demo_rng = 1 ## 1 ## 3 ## 3 ## 5 ## zeros"

text \<open>Draws that ask for two blocks and then offer column 0 for ever.\<close>

definition stuck_rng :: rng where
  "stuck_rng = 1 ## zeros"

text \<open>The state after one tick from \<open>demo_state\<close> with these draws.\<close>

definition demo_next :: game where
  "demo_next =
     \<lparr>board = (\<lambda>x y. if x = 5 \<and> y = 0 then 0
                     else if (x = 6 \<and> y = 1) \<or> (x = 0 \<and> y = 8) then 1
                     else if (x = 3 \<and> y = 1) \<or> (x = 3 \<and> y = 8) \<or> (x = 5 \<and> y = 8) then 2
                     else -1),
      ship_x = 5, ship_y = 0, score = 49, lives = 3, game_over = 1,
      controls_left = False, controls_right = False\<rparr>"

text \<open>A finished game with the left key still pending.\<close>

definition over_state :: game where
  "over_state = (state_at 4 True False)\<lparr>game_over := 1\<rparr>"

text \<open>
  The fields as they could be when the constructor's board set-up starts, and the state
  the constructor returns when every draw is 0: one block in column 0 of each row 2..8.
\<close>

definition header_state :: game where
  "header_state =
     \<lparr>board = (\<lambda>x y. 0), ship_x = 0, ship_y = 0, score = 0, lives = 3, game_over = 0,
      controls_left = False, controls_right = False\<rparr>"

definition start_state :: game where
  "start_state =
     \<lparr>board = (\<lambda>x y. if x < 9 \<and> y < 9
                     then (if x = 4 \<and> y = 0 then 0 else if x = 0 \<and> 2 \<le> y then 2 else -1)
                     else 0),
      ship_x = 4, ship_y = 0, score = 0, lives = 3, game_over = 0,
      controls_left = False, controls_right = False\<rparr>"

text \<open>
  The right key goes down in \<open>start_state\<close> and one tick follows, every draw being 0.
\<close>

definition key_right_down :: event where
  "key_right_down =
     \<lparr>evt_type = SDL_KEYDOWN, key_repeat = False, key_scancode = SDL_SCANCODE_RIGHT\<rparr>"

definition played_state :: game where
  "played_state =
     fst (the (update (snd (handle_event start_state key_right_down)) zeros))"

section \<open>Properties\<close>

subsection \<open>What the loops over the board compute\<close>

lemma set_cell_apply:
  "set_cell b x y v x' y' = (if x' = x \<and> y' = y then v else b x' y')"
  by (simp add: set_cell_def)

lemma fold_set_const:
  "fold (\<lambda>j b. set_cell b j r v) [0..<n] b x y = (if x < n \<and> y = r then v else b x y)"
  by (induction n) (auto simp: set_cell_apply)

lemma fold_set_col:
  "fold (\<lambda>j b. set_cell b c j v) [0..<n] b x y = (if x = c \<and> y < n then v else b x y)"
  by (induction n) (auto simp: set_cell_apply)

lemma clear_row8_apply:
  "clear_row8 b x y = (if x < board_size_x \<and> y = 8 then -1 else b x y)"
  by (simp add: clear_row8_def fold_set_const)

lemma fold_clear_cols:
  "fold (\<lambda>i b. fold (\<lambda>j b. set_cell b i j v) [0..<m] b) [0..<n] b x y =
     (if x < n \<and> y < m then v else b x y)"
  by (induction n) (auto simp: fold_set_col)

lemma clear_board_apply:
  "clear_board b x y = (if x < board_size_x \<and> y < board_size_y then -1 else b x y)"
  by (simp add: clear_board_def fold_clear_cols)

lemma fold_copy_row:
  "0 < j \<Longrightarrow>
   fold (\<lambda>i b. set_cell b i (j - 1) (b i j)) [0..<n] b x y =
     (if x < n \<and> y = j - 1 then b x j else b x y)"
  by (induction n arbitrary: x y) (auto simp: set_cell_apply)

lemma copy_row_apply:
  "0 < j \<Longrightarrow>
   copy_row j b x y = (if x < board_size_x \<and> y = j - 1 then b x j else b x y)"
  unfolding copy_row_def by (rule fold_copy_row)

lemma fold_shift:
  "fold copy_row [2..<m] b x y =
     (if x < board_size_x \<and> 1 \<le> y \<and> Suc y < m then b x (Suc y) else b x y)"
proof (induction m arbitrary: x y)
  case 0
  then show ?case by simp
next
  case (Suc m)
  show ?case
  proof (cases "2 \<le> m")
    case True
    then have "[2..<Suc m] = [2..<m] @ [m]" by simp
    with True Suc show ?thesis
      by (auto simp: copy_row_apply)
  next
    case False
    then show ?thesis by simp
  qed
qed

lemma shift_rows_apply:
  "shift_rows b x y =
     (if x < board_size_x \<and> 1 \<le> y \<and> Suc y < board_size_y then b x (Suc y) else b x y)"
  unfolding shift_rows_def by (rule fold_shift)

subsection \<open>The rejection loop\<close>

lemma find_empty_Some:
  assumes "find_empty b i rng = Some r"
  shows "fst r < 9 \<and> b (fst r) i = -1 \<and>
         (\<exists>k. snd r = sdrop (Suc k) rng \<and> fst r = rng !! k mod 9)"
proof (rule find_empty.raw_induct
    [where P = "\<lambda>b i rng r. fst r < 9 \<and> b (fst r) i = -1 \<and>
                  (\<exists>k. snd r = sdrop (Suc k) rng \<and> fst r = rng !! k mod 9)"
       and b = b and i = i and rng = rng and y = r], goal_cases)
  case (1 f b i rng r)
  show ?case
  proof (cases "b (shd rng mod 9) i = -1")
    case True
    with 1(2) have "r = (shd rng mod 9, stl rng)" by (auto simp: Let_def)
    with True show ?thesis by (auto intro: exI[of _ 0])
  next
    case False
    with 1(2) have "f b i (stl rng) = Some r" by (simp add: Let_def)
    from 1(1)[OF this] obtain k where
      "fst r < 9" "b (fst r) i = -1" "snd r = sdrop (Suc k) (stl rng)" "fst r = stl rng !! k mod 9"
      by blast
    then show ?thesis by (auto intro: exI[of _ "Suc k"])
  qed
next
  case 2
  show ?case by (rule assms)
qed

lemma find_empty_returns:
  "b (rng !! n mod 9) i = -1 \<Longrightarrow> \<exists>r. find_empty b i rng = Some r"
proof (induction n arbitrary: rng)
  case 0
  then show ?case by (subst find_empty.simps) (simp add: Let_def)
next
  case (Suc n)
  then have "\<exists>r. find_empty b i (stl rng) = Some r" by simp
  then show ?case by (subst find_empty.simps) (simp add: Let_def)
qed


lemma recurring_sdrop: "recurring rng \<Longrightarrow> recurring (sdrop k rng)"
  unfolding recurring_def by (metis sdrop_add)

lemma recurring_hit: "recurring rng \<Longrightarrow> c < 9 \<Longrightarrow> \<exists>n. rng !! n mod 9 = c"
  unfolding recurring_def by (metis sdrop.simps(1))

subsection \<open>Counting the cells of a row\<close>

lemma filter_agree:
  "\<forall>j < n. g j = f j \<Longrightarrow>
   filter (\<lambda>j. g j = w) [0..<n] = filter (\<lambda>j. f j = w) [0..<n]"
  by (rule filter_cong) auto

lemma length_filter_differ:
  fixes f g :: "nat \<Rightarrow> int"
  assumes "x < n" and "\<forall>j. j \<noteq> x \<longrightarrow> g j = f j"
  shows "length (filter (\<lambda>j. g j = w) [0..<n]) + (if f x = w then 1 else 0) =
         length (filter (\<lambda>j. f j = w) [0..<n]) + (if g x = w then 1 else 0)"
  using assms(1)
proof (induction n)
  case 0
  then show ?case by simp
next
  case (Suc n)
  show ?case
  proof (cases "x = n")
    case True
    with assms(2) have "\<forall>j < n. g j = f j" by simp
    from filter_agree[OF this] True show ?thesis by simp
  next
    case False
    with Suc.prems have "x < n" by simp
    from Suc.IH[OF this] False assms(2) show ?thesis by (simp split: if_splits)
  qed
qed

lemma count_row_set_cell:
  assumes "x < board_size_x"
  shows "count_row (set_cell b x i v) i w + (if b x i = w then 1 else 0) =
         count_row b i w + (if v = w then 1 else 0)"
proof -
  have "\<forall>j. j \<noteq> x \<longrightarrow> set_cell b x i v j i = b j i"
    by (simp add: set_cell_apply)
  from length_filter_differ[OF assms this, of w] show ?thesis
    by (simp add: count_row_def set_cell_apply)
qed

lemma count_row_pos:
  "0 < count_row b i w \<Longrightarrow> \<exists>c < board_size_x. b c i = w"
proof -
  assume "0 < count_row b i w"
  then have "filter (\<lambda>x. b x i = w) [0..<board_size_x] \<noteq> []"
    by (simp add: count_row_def)
  then obtain c where "c \<in> set (filter (\<lambda>x. b x i = w) [0..<board_size_x])"
    by (meson last_in_set)
  then show ?thesis by auto
qed

subsection \<open>The placement loops\<close>

lemma place_Some:
  assumes "place n k b i rng = Some (b', rng')" and "k \<noteq> -1"
  shows "(\<forall>x y. y \<noteq> i \<longrightarrow> b' x y = b x y) \<and>
         (\<forall>x. b' x i \<noteq> b x i \<longrightarrow> x < 9 \<and> b x i = -1 \<and> b' x i = k) \<and>
         count_row b' i k = count_row b i k + n \<and>
         count_row b' i (-1) + n = count_row b i (-1) \<and>
         (\<forall>w. w \<noteq> k \<longrightarrow> w \<noteq> -1 \<longrightarrow> count_row b' i w = count_row b i w) \<and>
         (\<exists>m. rng' = sdrop m rng)"
  using assms(1)
proof (induction n arbitrary: b rng)
  case 0
  then show ?case by (auto intro: exI[of _ 0])
next
  case (Suc n)
  from Suc.prems obtain num rng1 where
    fe: "find_empty b i rng = Some (num, rng1)" and
    pl: "place n k (set_cell b num i k) i rng1 = Some (b', rng')"
    by (auto split: option.splits)
  from find_empty_Some[OF fe] obtain j where
    num: "num < 9" "b num i = -1" and rng1: "rng1 = sdrop (Suc j) rng"
    by auto
  have numx: "num < board_size_x" using num(1) by (simp add: board_size_x_def)
  note IH = Suc.IH[OF pl]
  have c: "\<And>w. count_row (set_cell b num i k) i w + (if -1 = w then 1 else 0) =
             count_row b i w + (if k = w then 1 else 0)"
    using count_row_set_cell[OF numx, of b i k] num(2) by simp
  have 1: "\<forall>x y. y \<noteq> i \<longrightarrow> b' x y = b x y"
    using IH by (simp add: set_cell_apply)
  have 2: "\<forall>x. b' x i \<noteq> b x i \<longrightarrow> x < 9 \<and> b x i = -1 \<and> b' x i = k"
  proof (intro allI impI)
    fix x assume d: "b' x i \<noteq> b x i"
    from IH have h: "b' x i \<noteq> set_cell b num i k x i \<longrightarrow>
        x < 9 \<and> set_cell b num i k x i = -1 \<and> b' x i = k" by blast
    show "x < 9 \<and> b x i = -1 \<and> b' x i = k"
    proof (cases "x = num")
      case True
      with h num assms(2) d show ?thesis by (auto simp: set_cell_apply)
    next
      case False
      with h d show ?thesis by (auto simp: set_cell_apply)
    qed
  qed
  have 3: "count_row b' i k = count_row b i k + Suc n"
    using IH c[of k] assms(2) by simp
  have 4: "count_row b' i (-1) + Suc n = count_row b i (-1)"
    using IH c[of "-1"] assms(2) by simp
  have 5: "\<forall>w. w \<noteq> k \<longrightarrow> w \<noteq> -1 \<longrightarrow> count_row b' i w = count_row b i w"
  proof (intro allI impI)
    fix w :: int assume "w \<noteq> k" "w \<noteq> -1"
    with IH c[of w] show "count_row b' i w = count_row b i w" by simp
  qed
  from IH obtain m where "rng' = sdrop m rng1" by blast
  with rng1 have 6: "\<exists>m. rng' = sdrop m rng" by (metis sdrop_add)
  from 1 2 3 4 5 6 show ?case by blast
qed

lemma place_returns:
  assumes "recurring rng" and "n \<le> count_row b i (-1)" and "k \<noteq> -1"
  shows "\<exists>r. place n k b i rng = Some r"
  using assms(1,2)
proof (induction n arbitrary: b rng)
  case 0
  then show ?case by simp
next
  case (Suc n)
  then have "0 < count_row b i (-1)" by simp
  from count_row_pos[OF this] obtain c where c: "c < board_size_x" "b c i = -1" by blast
  with recurring_hit[OF Suc.prems(1), of c] obtain m where "b (rng !! m mod 9) i = -1"
    by (auto simp: board_size_x_def)
  from find_empty_returns[of b rng m i, OF this] obtain num rng1 where
    fe: "find_empty b i rng = Some (num, rng1)" by auto
  from find_empty_Some[OF fe] obtain j where
    num: "num < 9" "b num i = -1" and rng1: "rng1 = sdrop (Suc j) rng"
    by auto
  have numx: "num < board_size_x" using num(1) by (simp add: board_size_x_def)
  have r1: "recurring rng1" unfolding rng1 by (rule recurring_sdrop[OF Suc.prems(1)])
  have "count_row (set_cell b num i k) i (-1) + 1 = count_row b i (-1)"
    using count_row_set_cell[OF numx, of b i k "-1"] num(2) assms(3) by simp
  with Suc.prems(2) have "n \<le> count_row (set_cell b num i k) i (-1)" by simp
  from Suc.IH[OF r1 this] fe show ?case by simp
qed

lemma spawn_Some:
  assumes "spawn bl st b i rng = Some (b', rng')"
  shows "(\<forall>x y. y \<noteq> i \<longrightarrow> b' x y = b x y) \<and>
         (\<forall>x. b' x i \<noteq> b x i \<longrightarrow> x < 9 \<and> b x i = -1 \<and> (b' x i = 2 \<or> b' x i = 1)) \<and>
         count_row b' i 2 = count_row b i 2 + bl \<and>
         count_row b' i 1 = count_row b i 1 + st \<and>
         count_row b' i (-1) + bl + st = count_row b i (-1) \<and>
         (\<exists>m. rng' = sdrop m rng)"
proof -
  from assms obtain b1 rng1 where
    p1: "place bl 2 b i rng = Some (b1, rng1)" and
    p2: "place st 1 b1 i rng1 = Some (b', rng')"
    by (auto simp: spawn_def split: option.splits)
  note A = place_Some[OF p1] and B = place_Some[OF p2]
  have 1: "\<forall>x y. y \<noteq> i \<longrightarrow> b' x y = b x y" using A B by simp
  have 2: "\<forall>x. b' x i \<noteq> b x i \<longrightarrow> x < 9 \<and> b x i = -1 \<and> (b' x i = 2 \<or> b' x i = 1)"
  proof (intro allI impI)
    fix x assume d: "b' x i \<noteq> b x i"
    from A have a: "b1 x i \<noteq> b x i \<longrightarrow> x < 9 \<and> b x i = -1 \<and> b1 x i = 2" by simp
    from B have b: "b' x i \<noteq> b1 x i \<longrightarrow> x < 9 \<and> b1 x i = -1 \<and> b' x i = 1" by simp
    from a b d show "x < 9 \<and> b x i = -1 \<and> (b' x i = 2 \<or> b' x i = 1)"
      by (cases "b1 x i = b x i") auto
  qed
  have 3: "count_row b' i 2 = count_row b i 2 + bl" using A B by simp
  have 4: "count_row b' i 1 = count_row b i 1 + st" using A B by simp
  have 5: "count_row b' i (-1) + bl + st = count_row b i (-1)" using A B by simp
  from A B obtain m1 m2 where "rng1 = sdrop m1 rng" "rng' = sdrop m2 rng1" by auto
  then have 6: "\<exists>m. rng' = sdrop m rng" by (metis sdrop_add)
  from 1 2 3 4 5 6 show ?thesis by blast
qed

lemma spawn_returns:
  assumes "recurring rng" and "bl + st \<le> count_row b i (-1)"
  shows "\<exists>r. spawn bl st b i rng = Some r"
proof -
  from assms(2) have "bl \<le> count_row b i (-1)" by simp
  from place_returns[OF assms(1) this, of 2] obtain b1 rng1 where
    p1: "place bl 2 b i rng = Some (b1, rng1)" by auto
  note A = place_Some[OF p1]
  from A obtain m where "rng1 = sdrop m rng" by auto
  with assms(1) have r1: "recurring rng1" by (simp add: recurring_sdrop)
  from A assms(2) have "st \<le> count_row b1 i (-1)" by simp
  from place_returns[OF r1 this, of 1] p1 show ?thesis by (simp add: spawn_def)
qed

lemma count_row_cong:
  "\<forall>x < board_size_x. b' x y = b x y \<Longrightarrow> count_row b' y w = count_row b y w"
  unfolding count_row_def
  using filter_agree[of board_size_x "\<lambda>x. b' x y" "\<lambda>x. b x y" w] by simp

lemma count_row_clear_row8:
  "count_row (clear_row8 b) 8 w = (if w = -1 then board_size_x else 0)"
  by (simp add: count_row_def clear_row8_apply cong: filter_cong)

lemma respawn_Some:
  assumes "respawn b rng = Some (b', rng')"
  shows "(\<forall>x y. y \<noteq> 8 \<longrightarrow> b' x y = b x y) \<and>
         (\<forall>x < board_size_x. b' x 8 = -1 \<or> b' x 8 = 1 \<or> b' x 8 = 2) \<and>
         count_row b' 8 2 = shd rng mod 3 + 1 \<and>
         count_row b' 8 1 = shd (stl rng) mod 2 \<and>
         (\<exists>m. rng' = sdrop m rng)"
proof -
  from assms have sp: "spawn (shd rng mod 3 + 1) (shd (stl rng) mod 2) (clear_row8 b) 8
      (stl (stl rng)) = Some (b', rng')"
    by (simp add: respawn_def Let_def)
  note A = spawn_Some[OF sp]
  have 1: "\<forall>x y. y \<noteq> 8 \<longrightarrow> b' x y = b x y" using A by (simp add: clear_row8_apply)
  have 2: "\<forall>x < board_size_x. b' x 8 = -1 \<or> b' x 8 = 1 \<or> b' x 8 = 2"
  proof (intro allI impI)
    fix x assume "x < board_size_x"
    then have "clear_row8 b x 8 = -1" by (simp add: clear_row8_apply)
    moreover from A have "b' x 8 \<noteq> clear_row8 b x 8 \<longrightarrow> b' x 8 = 2 \<or> b' x 8 = 1" by blast
    ultimately show "b' x 8 = -1 \<or> b' x 8 = 1 \<or> b' x 8 = 2" by auto
  qed
  have 3: "count_row b' 8 2 = shd rng mod 3 + 1"
    using A by (simp add: count_row_clear_row8)
  have 4: "count_row b' 8 1 = shd (stl rng) mod 2"
    using A by (simp add: count_row_clear_row8)
  from A obtain m where "rng' = sdrop m (stl (stl rng))" by auto
  then have "rng' = sdrop (m + 2) rng" by (simp add: numeral_2_eq_2)
  then have 5: "\<exists>m. rng' = sdrop m rng" ..
  from 1 2 3 4 5 show ?thesis by blast
qed

lemma recurring_stl: "recurring rng \<Longrightarrow> recurring (stl rng)"
  using recurring_sdrop[of rng 1] by simp

lemma respawn_returns:
  assumes "recurring rng"
  shows "\<exists>r. respawn b rng = Some r"
proof -
  have r: "recurring (stl (stl rng))" using assms by (simp add: recurring_stl)
  have "shd rng mod 3 + 1 + shd (stl rng) mod 2 \<le> count_row (clear_row8 b) 8 (-1)"
    by (simp add: count_row_clear_row8 board_size_x_def)
  from spawn_returns[OF r this] show ?thesis by (simp add: respawn_def Let_def)
qed

subsection \<open>The rows that the constructor fills\<close>

lemma fill_row_Some:
  assumes "fill_row b i rng = Some (b', rng')"
  shows "(\<forall>x y. y \<noteq> i \<longrightarrow> b' x y = b x y) \<and> (\<exists>m. rng' = sdrop m rng)"
proof -
  from assms have sp: "spawn (shd rng mod 3 + 1) (shd (stl rng) mod 2) b i
      (stl (stl rng)) = Some (b', rng')"
    by (simp add: fill_row_def Let_def)
  note A = spawn_Some[OF sp]
  from A obtain m where "rng' = sdrop m (stl (stl rng))" by auto
  then have "rng' = sdrop (m + 2) rng" by (simp add: numeral_2_eq_2)
  then have "\<exists>m. rng' = sdrop m rng" ..
  with A show ?thesis by blast
qed

lemma fill_row_returns:
  assumes "recurring rng" and "4 \<le> count_row b i (-1)"
  shows "\<exists>r. fill_row b i rng = Some r"
proof -
  have r: "recurring (stl (stl rng))" using assms(1) by (simp add: recurring_stl)
  have "shd rng mod 3 + 1 + shd (stl rng) mod 2 \<le> 4" by arith
  with assms(2) have "shd rng mod 3 + 1 + shd (stl rng) mod 2 \<le> count_row b i (-1)"
    by linarith
  from spawn_returns[OF r this] show ?thesis by (simp add: fill_row_def Let_def)
qed

lemma fill_rows_Some:
  "fill_rows is b rng = Some (b', rng') \<Longrightarrow>
   (\<forall>x y. y \<notin> set is \<longrightarrow> b' x y = b x y) \<and> (\<exists>m. rng' = sdrop m rng)"
proof (induction "is" arbitrary: b rng)
  case Nil
  then show ?case by (auto intro: exI[of _ 0])
next
  case (Cons i "is")
  from Cons.prems obtain b1 rng1 where
    f1: "fill_row b i rng = Some (b1, rng1)" and
    f2: "fill_rows is b1 rng1 = Some (b', rng')"
    by (auto split: option.splits)
  note A = fill_row_Some[OF f1] and B = Cons.IH[OF f2]
  from A B obtain m1 m2 where "rng1 = sdrop m1 rng" "rng' = sdrop m2 rng1" by auto
  then have "\<exists>m. rng' = sdrop m rng" by (metis sdrop_add)
  moreover have "\<forall>x y. y \<notin> set (i # is) \<longrightarrow> b' x y = b x y" using A B by simp
  ultimately show ?case by blast
qed

lemma fill_rows_returns:
  assumes "recurring rng" and "distinct is" and "\<forall>i \<in> set is. 4 \<le> count_row b i (-1)"
  shows "\<exists>r. fill_rows is b rng = Some r"
  using assms
proof (induction "is" arbitrary: b rng)
  case Nil
  then show ?case by simp
next
  case (Cons i "is")
  from Cons.prems(3) have "4 \<le> count_row b i (-1)" by simp
  from fill_row_returns[OF Cons.prems(1) this] obtain b1 rng1 where
    f1: "fill_row b i rng = Some (b1, rng1)" by auto
  note A = fill_row_Some[OF f1]
  from A obtain m where "rng1 = sdrop m rng" by auto
  with Cons.prems(1) have r1: "recurring rng1" by (simp add: recurring_sdrop)
  have d: "distinct is" using Cons.prems(2) by simp
  have "\<forall>j \<in> set is. 4 \<le> count_row b1 j (-1)"
  proof
    fix j assume j: "j \<in> set is"
    with Cons.prems(2) have "j \<noteq> i" by auto
    with A have "\<forall>x < board_size_x. b1 x j = b x j" by simp
    from count_row_cong[of b1 j b, OF this] Cons.prems(3) j show "4 \<le> count_row b1 j (-1)" by simp
  qed
  from Cons.IH[OF r1 d this] f1 show ?case by simp
qed

lemma Game_Some:
  assumes "Game pre rng = Some (s, rng')"
  shows "ship_row s \<and> score s = score pre \<and> lives s = lives pre \<and>
         game_over s = game_over pre \<and> controls_left s = controls_left pre \<and>
         controls_right s = controls_right pre"
proof -
  let ?b1 = "set_cell (clear_board (board pre)) 4 0 0"
  from assms obtain b2 where
    f: "fill_rows [2..<board_size_y] ?b1 rng = Some (b2, rng')" and
    s: "s = pre\<lparr>board := b2, ship_x := 4, ship_y := 0\<rparr>"
    by (auto simp: Game_def Let_def split: option.splits)
  from fill_rows_Some[OF f] have "\<forall>x. b2 x 0 = ?b1 x 0" by simp
  then have "\<forall>x < board_size_x. b2 x 0 = (if x = 4 then SHIP else EMPTY)"
    by (simp add: set_cell_apply clear_board_apply board_size_y_def SHIP_def EMPTY_def)
  with s show ?thesis by (simp add: ship_row_def board_size_x_def)
qed

lemma Game_returns:
  assumes "recurring rng"
  shows "\<exists>r. Game pre rng = Some r"
proof -
  let ?b1 = "set_cell (clear_board (board pre)) 4 0 0"
  have "\<forall>i \<in> set [2..<board_size_y]. 4 \<le> count_row ?b1 i (-1)"
  proof
    fix i assume "i \<in> set [2..<board_size_y]"
    then have i: "2 \<le> i" "i < board_size_y" by auto
    then have "\<forall>x < board_size_x. ?b1 x i = (\<lambda>x y. -1) x i"
      by (simp add: set_cell_apply clear_board_apply)
    from count_row_cong[of ?b1 i "\<lambda>x y. -1", OF this] have "count_row ?b1 i (-1) = board_size_x"
      by (simp add: count_row_def)
    then show "4 \<le> count_row ?b1 i (-1)" by (simp add: board_size_x_def)
  qed
  from fill_rows_returns[OF assms _ this] obtain r where
    "fill_rows [2..<board_size_y] ?b1 rng = Some r" by auto
  then show ?thesis by (cases r) (simp add: Game_def Let_def)
qed

subsection \<open>The steps of a tick\<close>

lemma collide_frame:
  "board (collide s) = board s" "ship_x (collide s) = ship_x s" "ship_y (collide s) = ship_y s"
  "controls_left (collide s) = controls_left s" "controls_right (collide s) = controls_right s"
  by (simp_all add: collide_def Let_def)

lemma collide_counters:
  "score (collide s) = (if board s (ship_x s) (ship_y s + 1) = 1 then score s + 1 else score s)"
  "lives (collide s) = (if board s (ship_x s) (ship_y s + 1) = 2 then lives s - 1 else lives s)"
  "game_over (collide s) =
     (if board s (ship_x s) (ship_y s + 1) = 2 \<and> lives s - 1 = 0 then 1 else game_over s)"
  by (simp_all add: collide_def Let_def)

lemma move_left_fields:
  "board (move_left s) =
     set_cell (set_cell (board s) (ship_x s) (ship_y s) (-1)) (ship_x s - 1) (ship_y s) 0"
  "ship_x (move_left s) = ship_x s - 1" "ship_y (move_left s) = ship_y s"
  "score (move_left s) = score s" "lives (move_left s) = lives s"
  "game_over (move_left s) = game_over s"
  "controls_left (move_left s) = controls_left s"
  "controls_right (move_left s) = controls_right s"
  by (simp_all add: move_left_def Let_def)

lemma move_right_fields:
  "board (move_right s) =
     set_cell (set_cell (board s) (ship_x s) (ship_y s) (-1)) (ship_x s + 1) (ship_y s) 0"
  "ship_x (move_right s) = ship_x s + 1" "ship_y (move_right s) = ship_y s"
  "score (move_right s) = score s" "lives (move_right s) = lives s"
  "game_over (move_right s) = game_over s"
  "controls_left (move_right s) = controls_left s"
  "controls_right (move_right s) = controls_right s"
  by (simp_all add: move_right_def Let_def)

lemma after_collision_fields:
  assumes "moves s" and "in_grid s"
  shows "ship_x (after_collision s) = new_x s"
    and "ship_y (after_collision s) = 0"
    and "board (after_collision s) =
           set_cell (set_cell (board s) (ship_x s) 0 (-1)) (new_x s) 0 0"
    and "score (after_collision s) = (if ahead s = 1 then score s + 1 else score s)"
    and "lives (after_collision s) = (if ahead s = 2 then lives s - 1 else lives s)"
    and "game_over (after_collision s) =
           (if ahead s = 2 \<and> lives s - 1 = 0 then 1 else game_over s)"
  using assms
  by (auto simp: after_collision_def moves_def in_grid_def new_x_def ahead_def
      collide_frame collide_counters move_left_fields move_right_fields set_cell_apply)

lemma movement_moves:
  assumes "moves s"
  shows "movement s rng =
     (case respawn (shift_rows (board (after_collision s))) rng of
        None \<Rightarrow> None
      | Some (b, rng') \<Rightarrow> Some ((after_collision s)\<lparr>board := b\<rparr>, rng'))"
proof -
  from assms have "movement s rng =
      advance (if controls_left s = True \<and> ship_x s \<noteq> 0 then move_left s else move_right s) rng"
    by (auto simp: movement_def moves_def board_size_x_def)
  then show ?thesis
    unfolding advance_def after_collision_def Let_def .
qed

lemma movement_stays:
  assumes "\<not> (controls_left s \<and> ship_x s \<noteq> 0)"
      and "\<not> (controls_right s \<and> ship_x s \<noteq> 8)"
  shows "movement s rng = Some (s, rng)"
  using assms by (auto simp: movement_def board_size_x_def)

lemma finish_fields:
  "board (finish s) = board s" "ship_x (finish s) = ship_x s" "ship_y (finish s) = ship_y s"
  "score (finish s) = score s" "lives (finish s) = lives s"
  "game_over (finish s) = (if score s = 49 then 1 else game_over s)"
  "controls_left (finish s) = False" "controls_right (finish s) = False"
  by (simp_all add: finish_def Let_def)

lemma update_moves:
  assumes "moves s" and "update s rng = Some (s', rng')"
  shows "\<exists>b. respawn (shift_rows (board (after_collision s))) rng = Some (b, rng') \<and>
             s' = finish ((after_collision s)\<lparr>board := b\<rparr>)"
proof -
  from assms(1) have "game_over s \<noteq> 1" by (simp add: moves_def)
  with assms(2) obtain t where m: "movement s rng = Some (t, rng')" and s': "s' = finish t"
    by (auto simp: update_def split: option.splits)
  from m show ?thesis unfolding movement_moves[OF assms(1)] s'
    by (auto split: option.splits)
qed

subsection \<open>Concrete runs\<close>

lemma shd_zeros [simp]: "shd zeros = 0"
  by (simp add: zeros_def)

lemma stl_zeros [simp]: "stl zeros = zeros"
  by (simp add: zeros_def)

lemma find_empty_hit:
  "b (shd rng mod 9) i = -1 \<Longrightarrow> find_empty b i rng = Some (shd rng mod 9, stl rng)"
  by (subst find_empty.simps) (simp add: Let_def)

lemma find_empty_miss:
  "b (shd rng mod 9) i \<noteq> -1 \<Longrightarrow> find_empty b i rng = find_empty b i (stl rng)"
  by (subst find_empty.simps) (simp add: Let_def)

lemma respawn_zeros:
  "respawn b zeros = Some (set_cell (clear_row8 b) 0 8 2, zeros)"
  by (simp add: respawn_def spawn_def find_empty_hit clear_row8_apply board_size_x_def)

lemma respawn_demo:
  "respawn b demo_rng =
     Some (set_cell (set_cell (set_cell (clear_row8 b) 3 8 2) 5 8 2) 0 8 1, zeros)"
  by (simp add: respawn_def spawn_def demo_rng_def numeral_2_eq_2 find_empty_hit
      find_empty_miss clear_row8_apply set_cell_apply board_size_x_def)

lemma moves_demo: "moves demo_state"
  by (simp add: moves_def demo_state_def)

lemma in_grid_demo: "in_grid demo_state"
  by (simp add: in_grid_def demo_state_def board_size_x_def)

lemma movement_demo:
  "movement demo_state demo_rng =
     Some (demo_next\<lparr>game_over := 0, controls_right := True\<rparr>, zeros)"
proof -
  have "(after_collision demo_state)\<lparr>board :=
      set_cell (set_cell (set_cell (clear_row8 (shift_rows (board (after_collision demo_state))))
        3 8 2) 5 8 2) 0 8 1\<rparr> = demo_next\<lparr>game_over := 0, controls_right := True\<rparr>"
    by (simp add: demo_next_def Let_def after_collision_def collide_def
        move_right_def demo_state_def)
      (auto simp: fun_eq_iff shift_rows_apply clear_row8_apply set_cell_apply demo_board_def
        board_size_x_def board_size_y_def)
  then show ?thesis
    by (simp add: movement_moves[OF moves_demo] respawn_demo)
qed

lemma update_demo: "update demo_state demo_rng = Some (demo_next, zeros)"
proof -
  have "finish (demo_next\<lparr>game_over := 0, controls_right := True\<rparr>) = demo_next"
    by (simp add: finish_def demo_next_def)
  moreover have "game_over demo_state \<noteq> 1"
    by (simp add: demo_state_def)
  ultimately show ?thesis
    by (simp add: update_def movement_demo)
qed

lemma update_zeros:
  assumes "moves s"
  shows "update s zeros =
     Some (finish ((after_collision s)\<lparr>board :=
       set_cell (clear_row8 (shift_rows (board (after_collision s)))) 0 8 2\<rparr>), zeros)"
proof -
  from assms have "game_over s \<noteq> 1" by (simp add: moves_def)
  then show ?thesis
    by (simp add: update_def movement_moves[OF assms] respawn_zeros)
qed

subsection \<open>What a tick does to the board\<close>

lemma tick_result:
  assumes "moves s" and "in_grid s" and "update s rng = Some (s', rng')"
  shows "ship_x s' = new_x s" and "ship_y s' = 0"
    and "score s' = score (after_collision s)" and "lives s' = lives (after_collision s)"
    and "game_over s' = (if score (after_collision s) = 49 then 1
                         else game_over (after_collision s))"
    and "\<forall>x y. y \<noteq> 8 \<longrightarrow> board s' x y =
           shift_rows (set_cell (set_cell (board s) (ship_x s) 0 (-1)) (new_x s) 0 0) x y"
    and "\<forall>x < board_size_x. board s' x 8 = -1 \<or> board s' x 8 = 1 \<or> board s' x 8 = 2"
    and "count_row (board s') 8 2 = shd rng mod 3 + 1"
    and "count_row (board s') 8 1 = shd (stl rng) mod 2"
proof -
  from update_moves[OF assms(1,3)] obtain b where
    r: "respawn (shift_rows (board (after_collision s))) rng = Some (b, rng')" and
    s': "s' = finish ((after_collision s)\<lparr>board := b\<rparr>)" by blast
  note A = respawn_Some[OF r] and F = after_collision_fields[OF assms(1,2)]
  show "ship_x s' = new_x s" "ship_y s' = 0"
    "score s' = score (after_collision s)" "lives s' = lives (after_collision s)"
    "game_over s' = (if score (after_collision s) = 49 then 1
                     else game_over (after_collision s))"
    unfolding s' by (simp_all add: finish_fields F(1,2))
  have b: "board s' = b" unfolding s' by (simp add: finish_fields)
  show "\<forall>x y. y \<noteq> 8 \<longrightarrow> board s' x y =
      shift_rows (set_cell (set_cell (board s) (ship_x s) 0 (-1)) (new_x s) 0 0) x y"
    unfolding b using A F(3) by simp
  show "\<forall>x < board_size_x. board s' x 8 = -1 \<or> board s' x 8 = 1 \<or> board s' x 8 = 2"
    unfolding b using A by blast
  show "count_row (board s') 8 2 = shd rng mod 3 + 1"
    "count_row (board s') 8 1 = shd (stl rng) mod 2"
    unfolding b using A by simp_all
qed

lemma new_x_in_grid: "moves s \<Longrightarrow> in_grid s \<Longrightarrow> new_x s < board_size_x"
  by (auto simp: moves_def in_grid_def new_x_def board_size_x_def)

lemma tick_row0:
  assumes "moves s" and "in_grid s" and "update s rng = Some (s', rng')"
  shows "board s' x 0 =
     (if x = new_x s then 0 else if x = ship_x s then -1 else board s x 0)"
  using tick_result(6)[OF assms] by (simp add: shift_rows_apply set_cell_apply)

lemma tick_ship_row:
  assumes "moves s" and "in_grid s" and "update s rng = Some (s', rng')" and "ship_row s"
  shows "ship_row s'"
  using assms(4) tick_result(1,2)[OF assms(1-3)] new_x_in_grid[OF assms(1,2)]
  by (simp add: ship_row_def tick_row0[OF assms(1-3)] SHIP_def EMPTY_def)

lemma update_not_moving:
  assumes "\<not> moves s" and "update s rng = Some (s', rng')" and "in_grid s"
  shows "board s' = board s \<and> ship_x s' = ship_x s \<and> ship_y s' = ship_y s \<and>
         score s' = score s \<and> lives s' = lives s \<and> rng' = rng"
proof (cases "game_over s = 1")
  case True
  with assms(2) show ?thesis by (simp add: update_def)
next
  case False
  with assms(1,3) have "movement s rng = Some (s, rng)"
    by (intro movement_stays) (auto simp: moves_def in_grid_def board_size_x_def)
  with False assms(2) show ?thesis by (auto simp: update_def finish_fields)
qed

lemma update_ship_row:
  assumes "ship_row s" and "update s rng = Some (s', rng')"
  shows "ship_row s'"
proof (cases "moves s")
  case True
  from assms(1) have "in_grid s" by (simp add: ship_row_def in_grid_def)
  from tick_ship_row[OF True this assms(2,1)] show ?thesis .
next
  case False
  from assms(1) have "in_grid s" by (simp add: ship_row_def in_grid_def)
  from update_not_moving[OF False assms(2) this] assms(1) show ?thesis
    by (simp add: ship_row_def)
qed

lemma handle_event_frame:
  assumes "handle_event s evt = (r, s')"
  shows "board s' = board s \<and> ship_x s' = ship_x s \<and> ship_y s' = ship_y s \<and>
         score s' = score s \<and> lives s' = lives s \<and> game_over s' = game_over s"
  using assms by (auto simp: handle_event_def split: if_splits)

lemma reachable_ship_row: "reachable s \<Longrightarrow> ship_row s"
proof (induction rule: reachable.induct)
  case (init pre rng s rng')
  then show ?case by (simp add: Game_Some)
next
  case (event s evt r s')
  from handle_event_frame[OF event.hyps(2)] event.IH show ?case
    by (simp add: ship_row_def)
next
  case (tick s rng s' rng')
  from update_ship_row[OF tick.IH tick.hyps(2)] show ?case .
qed

lemma filter_eq_single: "k < n \<Longrightarrow> filter (\<lambda>x. x = k) [0..<n] = [k]"
proof (induction n)
  case 0
  then show ?case by simp
next
  case (Suc n)
  show ?case
  proof (cases "k = n")
    case True
    have "filter (\<lambda>x. x = n) [0..<n] = []" by (simp add: filter_empty_conv)
    with True show ?thesis by simp
  next
    case False
    with Suc show ?thesis by simp
  qed
qed

lemma ship_row_demo: "ship_row demo_state"
  by (simp add: ship_row_def demo_state_def demo_board_def board_size_x_def SHIP_def EMPTY_def)

subsection \<open>Reachable concrete states\<close>

lemma fold_set_col_from:
  "fold (\<lambda>j b. set_cell b c j v) [m..<n] b x y = (if x = c \<and> m \<le> y \<and> y < n then v else b x y)"
  by (induction n) (auto simp: set_cell_apply)

lemma fill_row_zeros:
  "b 0 i = -1 \<Longrightarrow> fill_row b i zeros = Some (set_cell b 0 i 2, zeros)"
  by (simp add: fill_row_def spawn_def find_empty_hit)

lemma fill_rows_zeros:
  "distinct is \<Longrightarrow> \<forall>i \<in> set is. b 0 i = -1 \<Longrightarrow>
   fill_rows is b zeros = Some (fold (\<lambda>i b. set_cell b 0 i 2) is b, zeros)"
proof (induction "is" arbitrary: b)
  case Nil
  then show ?case by simp
next
  case (Cons i "is")
  from Cons.prems have "\<forall>j \<in> set is. set_cell b 0 i 2 0 j = -1"
    by (auto simp: set_cell_apply)
  with Cons.prems have "fill_rows is (set_cell b 0 i 2) zeros =
      Some (fold (\<lambda>i b. set_cell b 0 i 2) is (set_cell b 0 i 2), zeros)"
    by (intro Cons.IH) simp_all
  moreover from Cons.prems have "fill_row b i zeros = Some (set_cell b 0 i 2, zeros)"
    by (intro fill_row_zeros) simp
  ultimately show ?case by simp
qed

lemma Game_start: "Game header_state zeros = Some (start_state, zeros)"
proof -
  let ?b1 = "set_cell (clear_board (board header_state)) 4 0 0"
  have "\<forall>i \<in> set [2..<board_size_y]. ?b1 0 i = -1"
    by (simp add: set_cell_apply clear_board_apply board_size_x_def)
  then have f: "fill_rows [2..<board_size_y] ?b1 zeros =
      Some (fold (\<lambda>i b. set_cell b 0 i 2) [2..<board_size_y] ?b1, zeros)"
    by (intro fill_rows_zeros) simp_all
  have "header_state\<lparr>ship_x := 4, ship_y := 0,
      board := fold (\<lambda>i b. set_cell b 0 i 2) [2..<board_size_y] ?b1\<rparr> = start_state"
    by (simp add: header_state_def start_state_def)
      (auto simp: fun_eq_iff fold_set_col_from set_cell_apply clear_board_apply
        board_size_x_def board_size_y_def)
  with f show ?thesis by (simp add: Game_def Let_def)
qed

lemma reachable_start: "reachable start_state"
  by (rule reachable.init[OF Game_start])

lemma handle_key_right_down:
  "handle_event start_state key_right_down = (True, start_state\<lparr>controls_right := True\<rparr>)"
  by (simp add: handle_event_def key_right_down_def)

lemma moves_keyed: "moves (start_state\<lparr>controls_right := True\<rparr>)"
  by (simp add: moves_def start_state_def)

lemma in_grid_keyed: "in_grid (start_state\<lparr>controls_right := True\<rparr>)"
  by (simp add: in_grid_def start_state_def board_size_x_def)

lemma update_keyed:
  "update (start_state\<lparr>controls_right := True\<rparr>) zeros = Some (played_state, zeros)"
  by (simp add: played_state_def handle_key_right_down update_zeros[OF moves_keyed])

lemma reachable_played: "reachable played_state"
  by (rule reachable.tick[OF reachable.event[OF reachable_start handle_key_right_down]
        update_keyed])

lemma ship_x_played: "ship_x played_state = 5"
  using tick_result(1)[OF moves_keyed in_grid_keyed update_keyed]
  by (simp add: new_x_def start_state_def)

subsection \<open>When the loops return\<close>

lemma find_empty_zeros_None:
  assumes "b 0 i \<noteq> -1"
  shows "find_empty b i zeros = None"
proof -
  have "\<And>r. find_empty b i zeros = Some r \<Longrightarrow> False"
  proof -
    fix r assume a: "find_empty b i zeros = Some r"
    have "zeros = zeros \<longrightarrow> b 0 i = -1"
    proof (rule find_empty.raw_induct
        [where P = "\<lambda>b i rng r. rng = zeros \<longrightarrow> b 0 i = -1"
           and b = b and i = i and rng = zeros and y = r], goal_cases)
      case (1 f b i rng r)
      show ?case
      proof
        assume z: "rng = zeros"
        show "b 0 i = -1"
        proof (rule ccontr)
          assume n: "b 0 i \<noteq> -1"
          with 1(2) z have "f b i zeros = Some r" by (simp add: Let_def)
          from 1(1)[OF this] n show False by simp
        qed
      qed
    next
      case 2
      show ?case by (rule a)
    qed
    with assms show False by simp
  qed
  then show ?thesis by (cases "find_empty b i zeros") auto
qed

lemma find_empty_iff:
  "(\<exists>r. find_empty b i rng = Some r) \<longleftrightarrow> (\<exists>n. b (rng !! n mod 9) i = -1)"
proof
  assume "\<exists>r. find_empty b i rng = Some r"
  then obtain r where "find_empty b i rng = Some r" ..
  from find_empty_Some[OF this] show "\<exists>n. b (rng !! n mod 9) i = -1" by metis
next
  assume "\<exists>n. b (rng !! n mod 9) i = -1"
  then obtain n where "b (rng !! n mod 9) i = -1" ..
  from find_empty_returns[of b rng n i, OF this] show "\<exists>r. find_empty b i rng = Some r" .
qed

lemma respawn_empty_count:
  assumes "respawn b rng = Some (b', rng')"
  shows "5 \<le> count_row b' 8 (-1)"
proof -
  from assms have sp: "spawn (shd rng mod 3 + 1) (shd (stl rng) mod 2) (clear_row8 b) 8
      (stl (stl rng)) = Some (b', rng')"
    by (simp add: respawn_def Let_def)
  from spawn_Some[OF sp] have
    "count_row b' 8 (-1) + (shd rng mod 3 + 1) + shd (stl rng) mod 2 = board_size_x"
    by (simp add: count_row_clear_row8)
  then show ?thesis by (simp add: board_size_x_def)
qed

lemma fill_row_empty_count:
  assumes "fill_row b i rng = Some (b', rng')"
  shows "count_row b i (-1) \<le> count_row b' i (-1) + 4"
proof -
  from assms have sp: "spawn (shd rng mod 3 + 1) (shd (stl rng) mod 2) b i
      (stl (stl rng)) = Some (b', rng')"
    by (simp add: fill_row_def Let_def)
  from spawn_Some[OF sp] have
    "count_row b' i (-1) + (shd rng mod 3 + 1) + shd (stl rng) mod 2 = count_row b i (-1)"
    by simp
  then show ?thesis by arith
qed

lemma fill_rows_empty_count:
  assumes "distinct is" and "fill_rows is b rng = Some (b', rng')"
  shows "count_row b j (-1) \<le> count_row b' j (-1) + 4"
  using assms
proof (induction "is" arbitrary: b rng)
  case Nil
  then show ?case by simp
next
  case (Cons i "is")
  from Cons.prems(2) obtain b1 rng1 where
    f1: "fill_row b i rng = Some (b1, rng1)" and
    f2: "fill_rows is b1 rng1 = Some (b', rng')"
    by (auto split: option.splits)
  from Cons.prems(1) have d: "distinct is" and ni: "i \<notin> set is" by simp_all
  show ?case
  proof (cases "j = i")
    case True
    from fill_rows_Some[OF f2] ni have "\<forall>x < board_size_x. b' x i = b1 x i" by simp
    from count_row_cong[of b' i b1, OF this] fill_row_empty_count[OF f1] True
    show ?thesis by simp
  next
    case False
    with fill_row_Some[OF f1] have "\<forall>x < board_size_x. b1 x j = b x j" by simp
    from count_row_cong[of b1 j b, OF this] Cons.IH[OF d f2] show ?thesis by simp
  qed
qed

lemma Game_empty_count:
  assumes "Game pre rng = Some (g, rng')" and "2 \<le> i" and "i < board_size_y"
  shows "5 \<le> count_row (board g) i (-1)"
proof -
  let ?b1 = "set_cell (clear_board (board pre)) 4 0 0"
  from assms(1) obtain b2 where
    f: "fill_rows [2..<board_size_y] ?b1 rng = Some (b2, rng')" and
    g: "board g = b2"
    by (auto simp: Game_def Let_def split: option.splits)
  from assms(2,3) have "\<forall>x < board_size_x. ?b1 x i = (\<lambda>x y. -1) x i"
    by (simp add: set_cell_apply clear_board_apply)
  from count_row_cong[of ?b1 i "\<lambda>x y. -1", OF this] have "count_row ?b1 i (-1) = board_size_x"
    by (simp add: count_row_def)
  with fill_rows_empty_count[OF _ f, of i] g show ?thesis
    by (simp add: board_size_x_def)
qed

lemma update_returns:
  assumes "recurring rng"
  shows "\<exists>r. update s rng = Some r"
proof -
  have adv: "\<And>t. \<exists>r. advance t rng = Some r"
  proof -
    fix t
    from respawn_returns[OF assms, of "shift_rows (board (collide t))"]
    obtain b r' where "respawn (shift_rows (board (collide t))) rng = Some (b, r')" by auto
    then show "\<exists>r. advance t rng = Some r" by (simp add: advance_def Let_def)
  qed
  have "\<exists>r. movement s rng = Some r"
    unfolding movement_def using adv by simp
  then obtain t r' where "movement s rng = Some (t, r')" by auto
  then show ?thesis by (simp add: update_def)
qed

lemma recurring_nats: "recurring nats"
  unfolding recurring_def
proof (intro allI impI)
  fix m c :: nat assume "c < 9"
  then have "sdrop m nats !! (8 * m + c) mod 9 = c" by (simp add: sdrop_snth)
  then show "\<exists>n. sdrop m nats !! n mod 9 = c" ..
qed

lemma spawn_two_zeros:
  assumes "b 0 i = -1"
  shows "spawn (Suc (Suc 0)) st b i zeros = None"
proof -
  from assms have 1: "find_empty b i zeros = Some (0, zeros)"
    using find_empty_hit[of b zeros i] by simp
  have 2: "find_empty (set_cell b 0 i 2) i zeros = None"
    by (rule find_empty_zeros_None) (simp add: set_cell_apply)
  have "place (Suc (Suc 0)) 2 b i zeros = None" by (simp add: 1 2)
  then show ?thesis by (simp add: spawn_def)
qed

lemma fill_row_stuck: "b 0 i = -1 \<Longrightarrow> fill_row b i stuck_rng = None"
  by (simp add: fill_row_def stuck_rng_def spawn_two_zeros)

lemma respawn_stuck: "respawn b stuck_rng = None"
  by (simp add: respawn_def stuck_rng_def spawn_two_zeros clear_row8_apply board_size_x_def)

lemma tick_outcome:
  assumes "moves s" and "in_grid s" and "update s rng = Some (s', rng')"
  shows "(\<forall>j \<in> {2..8}. \<forall>x < board_size_x. board s' x (j - 1) = board s x j) \<and>
               (\<forall>x < board_size_x. board s' x 0 =
                  (if x = new_x s then SHIP else if x = ship_x s then EMPTY else board s x 0)) \<and>
               (ship_row s \<longrightarrow> ship_row s') \<and>
               (\<forall>x < board_size_x.
                  board s' x 8 = EMPTY \<or> board s' x 8 = STAR \<or> board s' x 8 = BLOCK) \<and>
               count_row (board s') 8 BLOCK = shd rng mod 3 + 1 \<and>
               count_row (board s') 8 BLOCK \<in> {1, 2, 3} \<and>
               count_row (board s') 8 STAR = shd (stl rng) mod 2 \<and>
               count_row (board s') 8 STAR \<in> {0, 1}"
proof -
  note T = tick_result[OF assms]
  have 1: "\<forall>j \<in> {2..8}. \<forall>x < board_size_x. board s' x (j - 1) = board s x j"
  proof (intro ballI allI impI)
    fix j :: nat and x assume j: "j \<in> {2..8}" and x: "x < board_size_x"
    then have "j - 1 \<noteq> 8" "1 \<le> j - 1" "Suc (j - 1) < board_size_y" "Suc (j - 1) = j" "j \<noteq> 0"
      by (auto simp: board_size_y_def)
    with T(6) x show "board s' x (j - 1) = board s x j"
      by (simp add: shift_rows_apply set_cell_apply)
  qed
  have 2: "\<forall>x < board_size_x. board s' x 0 =
      (if x = new_x s then SHIP else if x = ship_x s then EMPTY else board s x 0)"
    by (simp add: tick_row0[OF assms] SHIP_def EMPTY_def)
  have 3: "ship_row s \<longrightarrow> ship_row s'"
    using tick_ship_row[OF assms] by blast
  have 4: "\<forall>x < board_size_x.
      board s' x 8 = EMPTY \<or> board s' x 8 = STAR \<or> board s' x 8 = BLOCK"
    using T(7) by (simp add: EMPTY_def STAR_def BLOCK_def)
  have 5: "count_row (board s') 8 BLOCK = shd rng mod 3 + 1"
    using T(8) by (simp add: BLOCK_def)
  have 6: "count_row (board s') 8 STAR = shd (stl rng) mod 2"
    using T(9) by (simp add: STAR_def)
  have 7: "count_row (board s') 8 BLOCK \<in> {1, 2, 3}" unfolding 5 by auto
  have 8: "count_row (board s') 8 STAR \<in> {0, 1}" unfolding 6 by auto
  from 1 2 3 4 5 6 7 8 show ?thesis by blast
qed

section \<open>The claims\<close>

text \<open>
  C1. In every tick in which the ship moves (the left key pending with \<open>ship_x > 0\<close>, or
  else the right key pending with \<open>ship_x < 8\<close>), the collision is decided by the one
  cell at row 1 in the ship's new column, read before the rows are shifted: a STAR there
  adds exactly 1 to the score, a BLOCK takes exactly 1 from the lives and the collision
  sets \<open>game_over\<close> exactly when the lives reach 0, and with EMPTY there score and lives
  stay as they are. The counters of the state that \<open>update\<close> returns are those the
  collision left; \<open>game_over\<close> is set in the returned state exactly when the collision
  set it or the score stands at 49 (the win test that ends the tick).
\<close>

theorem collision_reads_row_1:
  assumes "moves s" and "in_grid s"
  shows "(ahead s = STAR \<longrightarrow>
            score (after_collision s) = score s + 1 \<and> lives (after_collision s) = lives s \<and>
            game_over (after_collision s) = game_over s) \<and>
         (ahead s = BLOCK \<longrightarrow>
            lives (after_collision s) = lives s - 1 \<and> score (after_collision s) = score s \<and>
            (game_over (after_collision s) = 1 \<longleftrightarrow> lives (after_collision s) = 0)) \<and>
         (ahead s = EMPTY \<longrightarrow>
            score (after_collision s) = score s \<and> lives (after_collision s) = lives s \<and>
            game_over (after_collision s) = game_over s) \<and>
         (\<forall>rng s' rng'. update s rng = Some (s', rng') \<longrightarrow>
            ship_x s' = new_x s \<and>
            score s' = score (after_collision s) \<and> lives s' = lives (after_collision s) \<and>
            (game_over s' = 1 \<longleftrightarrow>
               game_over (after_collision s) = 1 \<or> score (after_collision s) = 49))"
proof -
  note F = after_collision_fields[OF assms]
  from assms(1) have g: "game_over s \<noteq> 1" by (simp add: moves_def)
  have 1: "ahead s = STAR \<longrightarrow>
      score (after_collision s) = score s + 1 \<and> lives (after_collision s) = lives s \<and>
      game_over (after_collision s) = game_over s"
    by (simp add: F STAR_def)
  have 2: "ahead s = BLOCK \<longrightarrow>
      lives (after_collision s) = lives s - 1 \<and> score (after_collision s) = score s \<and>
      (game_over (after_collision s) = 1 \<longleftrightarrow> lives (after_collision s) = 0)"
    using g by (simp add: F BLOCK_def)
  have 3: "ahead s = EMPTY \<longrightarrow>
      score (after_collision s) = score s \<and> lives (after_collision s) = lives s \<and>
      game_over (after_collision s) = game_over s"
    by (simp add: F EMPTY_def)
  have 4: "\<forall>rng s' rng'. update s rng = Some (s', rng') \<longrightarrow>
      ship_x s' = new_x s \<and>
      score s' = score (after_collision s) \<and> lives s' = lives (after_collision s) \<and>
      (game_over s' = 1 \<longleftrightarrow>
         game_over (after_collision s) = 1 \<or> score (after_collision s) = 49)"
  proof (intro allI impI)
    fix rng s' rng' assume u: "update s rng = Some (s', rng')"
    note T = tick_result[OF assms u]
    show "ship_x s' = new_x s \<and>
      score s' = score (after_collision s) \<and> lives s' = lives (after_collision s) \<and>
      (game_over s' = 1 \<longleftrightarrow>
         game_over (after_collision s) = 1 \<or> score (after_collision s) = 49)"
      by (simp add: T(1,3,4,5))
  qed
  from 1 2 3 4 show ?thesis by blast
qed

text \<open>
  The demo tick: the ship moves from column 4 to 5 onto a star, at score 48.
\<close>

theorem collision_reads_row_1_witness:
  "moves demo_state \<and> in_grid demo_state \<and> ahead demo_state = STAR \<and>
   score demo_state = 48 \<and> score (after_collision demo_state) = 49 \<and>
   lives (after_collision demo_state) = 3 \<and> game_over (after_collision demo_state) = 0 \<and>
   update demo_state demo_rng = Some (demo_next, zeros) \<and>
   ship_x demo_next = 5 \<and> score demo_next = 49 \<and> lives demo_next = 3 \<and>
   game_over demo_next = 1"
proof -
  have a: "ahead demo_state = STAR"
    by (simp add: ahead_def new_x_def demo_state_def demo_board_def STAR_def)
  have d: "score demo_state = 48" "lives demo_state = 3" "game_over demo_state = 0"
    "new_x demo_state = 5"
    by (simp_all add: demo_state_def new_x_def)
  from collision_reads_row_1[OF moves_demo in_grid_demo] a d update_demo moves_demo in_grid_demo
  show ?thesis by (simp add: demo_next_def)
qed

text \<open>
  C2. When \<open>game_over\<close> is set, a call of \<open>update\<close> changes nothing: it returns the state
  it was given (grid, \<open>ship_x\<close>, score, lives, \<open>game_over\<close> and both pending flags), and it
  draws nothing from the generator.
\<close>

theorem update_game_over_noop:
  "game_over s = 1 \<Longrightarrow> update s rng = Some (s, rng)"
  by (simp add: update_def)

theorem update_game_over_noop_witness:
  "game_over over_state = 1 \<and> update over_state demo_rng = Some (over_state, demo_rng)"
proof -
  have "game_over over_state = 1" by (simp add: over_state_def)
  with update_game_over_noop[of over_state demo_rng] show ?thesis by simp
qed

text \<open>
  C3, as stated (both pending flags are false after every call of \<open>update\<close>, game over or
  not), fails: in a finished game with the left key pending, \<open>update\<close> returns the state
  as it is, the flag still set.
\<close>

theorem flags_survive_game_over:
  "game_over over_state = 1 \<and> controls_left over_state \<and>
   update over_state zeros = Some (over_state, zeros) \<and>
   controls_left (fst (the (update over_state zeros)))"
  by (simp add: update_def over_state_def state_at_def)

text \<open>
  C3, amended. After a call of \<open>update\<close> on a state in which \<open>game_over\<close> is not set, both
  pending flags are false; when \<open>game_over\<close> is set, the call returns at once and both
  flags keep their values.
\<close>

theorem update_clears_flags:
  assumes "update s rng = Some (s', rng')"
  shows "if game_over s = 1
         then controls_left s' = controls_left s \<and> controls_right s' = controls_right s
         else \<not> controls_left s' \<and> \<not> controls_right s'"
  using assms by (auto simp: update_def finish_fields split: option.splits)

theorem update_clears_flags_witness:
  "update demo_state demo_rng = Some (demo_next, zeros) \<and> game_over demo_state = 0 \<and>
   controls_right demo_state \<and> \<not> controls_left demo_next \<and> \<not> controls_right demo_next"
proof -
  have "game_over demo_state = 0" "controls_right demo_state"
    by (simp_all add: demo_state_def)
  with update_clears_flags[OF update_demo] update_demo show ?thesis by simp
qed

text \<open>
  C4. A tick in which the ship moves returns whenever each column 0..8 keeps coming back
  in the draws, and in the state it returns each row \<open>j - 1\<close> for \<open>j\<close> in 2..8 holds what
  row \<open>j\<close> held before the tick; row 0 differs from before only in the ship's old cell
  (now EMPTY) and its new cell (now SHIP), so a row 0 that held only the ship still holds
  only the ship; row 8 holds nothing but EMPTY, STAR and BLOCK cells, with as many BLOCK
  cells as were drawn (\<open>rand() % 3 + 1\<close>, between 1 and 3) and as many STAR cells as were
  drawn (\<open>rand() % 2\<close>, 0 or 1): every placed item has a cell of its own. The same holds
  of every state that such a tick returns, whatever the draws.
\<close>

theorem shift_and_respawn:
  assumes "moves s" and "in_grid s"
  shows "(recurring rng \<longrightarrow>
            (\<exists>s' rng'. update s rng = Some (s', rng') \<and>
               (\<forall>j \<in> {2..8}. \<forall>x < board_size_x. board s' x (j - 1) = board s x j) \<and>
               (\<forall>x < board_size_x. board s' x 0 =
                  (if x = new_x s then SHIP else if x = ship_x s then EMPTY else board s x 0)) \<and>
               (ship_row s \<longrightarrow> ship_row s') \<and>
               (\<forall>x < board_size_x.
                  board s' x 8 = EMPTY \<or> board s' x 8 = STAR \<or> board s' x 8 = BLOCK) \<and>
               count_row (board s') 8 BLOCK = shd rng mod 3 + 1 \<and>
               count_row (board s') 8 BLOCK \<in> {1, 2, 3} \<and>
               count_row (board s') 8 STAR = shd (stl rng) mod 2 \<and>
               count_row (board s') 8 STAR \<in> {0, 1})) \<and>
         (\<forall>s' rng'. update s rng = Some (s', rng') \<longrightarrow>
               (\<forall>j \<in> {2..8}. \<forall>x < board_size_x. board s' x (j - 1) = board s x j) \<and>
               (\<forall>x < board_size_x. board s' x 0 =
                  (if x = new_x s then SHIP else if x = ship_x s then EMPTY else board s x 0)) \<and>
               (ship_row s \<longrightarrow> ship_row s') \<and>
               (\<forall>x < board_size_x.
                  board s' x 8 = EMPTY \<or> board s' x 8 = STAR \<or> board s' x 8 = BLOCK) \<and>
               count_row (board s') 8 BLOCK = shd rng mod 3 + 1 \<and>
               count_row (board s') 8 BLOCK \<in> {1, 2, 3} \<and>
               count_row (board s') 8 STAR = shd (stl rng) mod 2 \<and>
               count_row (board s') 8 STAR \<in> {0, 1})"
proof -
  let ?P = "\<lambda>s'.
               (\<forall>j \<in> {2..8}. \<forall>x < board_size_x. board s' x (j - 1) = board s x j) \<and>
               (\<forall>x < board_size_x. board s' x 0 =
                  (if x = new_x s then SHIP else if x = ship_x s then EMPTY else board s x 0)) \<and>
               (ship_row s \<longrightarrow> ship_row s') \<and>
               (\<forall>x < board_size_x.
                  board s' x 8 = EMPTY \<or> board s' x 8 = STAR \<or> board s' x 8 = BLOCK) \<and>
               count_row (board s') 8 BLOCK = shd rng mod 3 + 1 \<and>
               count_row (board s') 8 BLOCK \<in> {1, 2, 3} \<and>
               count_row (board s') 8 STAR = shd (stl rng) mod 2 \<and>
               count_row (board s') 8 STAR \<in> {0, 1}"
  have a: "\<And>s' rng'. update s rng = Some (s', rng') \<Longrightarrow> ?P s'"
    by (rule tick_outcome[OF assms])
  have "recurring rng \<longrightarrow> (\<exists>s' rng'. update s rng = Some (s', rng') \<and> ?P s')"
  proof
    assume "recurring rng"
    from update_returns[OF this, of s] obtain s' rng' where
      u: "update s rng = Some (s', rng')" by auto
    show "\<exists>s' rng'. update s rng = Some (s', rng') \<and> ?P s'"
      by (rule exI[of _ s'], rule exI[of _ rng'], rule conjI[OF u a[OF u]])
  qed
  moreover have "\<forall>s' rng'. update s rng = Some (s', rng') \<longrightarrow> ?P s'"
    by (intro allI impI) (rule a)
  ultimately show ?thesis by (rule conjI)
qed

text \<open>
  The demo tick with the draws 0, 1, 2, ... (one block, one star), where the result
  exists because the draws recur, and with the demo draws (two blocks, the second after a
  rejected draw, and one star), where the result is computed.
\<close>

theorem shift_and_respawn_witness:
  "moves demo_state \<and> in_grid demo_state \<and> recurring nats \<and>
   (\<exists>s' rng'. update demo_state nats = Some (s', rng') \<and>
      ship_row s' \<and> board s' 3 1 = BLOCK \<and> board s' 6 1 = STAR \<and>
      board s' 4 0 = EMPTY \<and> board s' 5 0 = SHIP \<and>
      count_row (board s') 8 BLOCK = 1 \<and> count_row (board s') 8 STAR = 1) \<and>
   update demo_state demo_rng = Some (demo_next, zeros) \<and>
   ship_row demo_state \<and> ship_row demo_next \<and>
   board demo_state 3 2 = BLOCK \<and> board demo_next 3 1 = BLOCK \<and>
   board demo_state 6 2 = STAR \<and> board demo_next 6 1 = STAR \<and>
   board demo_next 4 0 = EMPTY \<and> board demo_next 5 0 = SHIP \<and>
   count_row (board demo_next) 8 BLOCK = 2 \<and> count_row (board demo_next) 8 STAR = 1 \<and>
   board demo_next 3 8 = BLOCK \<and> board demo_next 5 8 = BLOCK \<and> board demo_next 0 8 = STAR"
proof -
  note N = shift_and_respawn[OF moves_demo in_grid_demo, of nats]
  note D = shift_and_respawn[OF moves_demo in_grid_demo, of demo_rng]
  have c: "board demo_state 3 2 = BLOCK" "board demo_next 3 1 = BLOCK"
    "board demo_state 6 2 = STAR" "board demo_next 6 1 = STAR"
    "board demo_next 4 0 = EMPTY" "board demo_next 5 0 = SHIP"
    "board demo_next 3 8 = BLOCK" "board demo_next 5 8 = BLOCK" "board demo_next 0 8 = STAR"
    by (simp_all add: demo_state_def demo_next_def demo_board_def
        EMPTY_def SHIP_def STAR_def BLOCK_def)
  have x: "new_x demo_state = 5" "ship_x demo_state = 4"
    by (simp_all add: new_x_def demo_state_def)
  from N[THEN conjunct1, THEN mp, OF recurring_nats] obtain s' rng' where
    H: "update demo_state nats = Some (s', rng') \<and>
               (\<forall>j \<in> {2..8}. \<forall>x < board_size_x. board s' x (j - 1) = board demo_state x j) \<and>
               (\<forall>x < board_size_x. board s' x 0 =
                  (if x = new_x demo_state then SHIP else if x = ship_x demo_state then EMPTY else board demo_state x 0)) \<and>
               (ship_row demo_state \<longrightarrow> ship_row s') \<and>
               (\<forall>x < board_size_x.
                  board s' x 8 = EMPTY \<or> board s' x 8 = STAR \<or> board s' x 8 = BLOCK) \<and>
               count_row (board s') 8 BLOCK = shd nats mod 3 + 1 \<and>
               count_row (board s') 8 BLOCK \<in> {1, 2, 3} \<and>
               count_row (board s') 8 STAR = shd (stl nats) mod 2 \<and>
               count_row (board s') 8 STAR \<in> {0, 1}"
    by (elim exE) (rule that)
  from H have u: "update demo_state nats = Some (s', rng')" by (rule conjunct1)
  from H have sh: "\<forall>j \<in> {2..8}. \<forall>x < board_size_x. board s' x (j - 1) = board demo_state x j"
    by (elim conjE)
  from H have r0: "\<forall>x < board_size_x. board s' x 0 =
       (if x = new_x demo_state then SHIP
        else if x = ship_x demo_state then EMPTY else board demo_state x 0)"
    by (elim conjE)
  from H have sr: "ship_row demo_state \<longrightarrow> ship_row s'"
    by (elim conjE)
  from H have cb: "count_row (board s') 8 BLOCK = shd nats mod 3 + 1"
    by (elim conjE)
  from H have cs: "count_row (board s') 8 STAR = shd (stl nats) mod 2"
    by (elim conjE)
  have "(2::nat) \<in> {2..8}" by simp
  with sh have "\<forall>x < board_size_x. board s' x (2 - 1) = board demo_state x 2" by (rule bspec)
  then have "board s' 3 1 = board demo_state 3 2" "board s' 6 1 = board demo_state 6 2"
    by (simp_all add: board_size_x_def)
  with c have 1: "board s' 3 1 = BLOCK" "board s' 6 1 = STAR" by simp_all
  from r0 x have 2: "board s' 4 0 = EMPTY" "board s' 5 0 = SHIP"
    by (simp_all add: board_size_x_def)
  from cb cs have 3: "count_row (board s') 8 BLOCK = 1" "count_row (board s') 8 STAR = 1"
    by simp_all
  from sr ship_row_demo have 4: "ship_row s'" by simp
  from u 4 1 2 3 have e: "update demo_state nats = Some (s', rng') \<and>
      ship_row s' \<and> board s' 3 1 = BLOCK \<and> board s' 6 1 = STAR \<and>
      board s' 4 0 = EMPTY \<and> board s' 5 0 = SHIP \<and>
      count_row (board s') 8 BLOCK = 1 \<and> count_row (board s') 8 STAR = 1"
    by simp
  have E: "\<exists>s' rng'. update demo_state nats = Some (s', rng') \<and>
      ship_row s' \<and> board s' 3 1 = BLOCK \<and> board s' 6 1 = STAR \<and>
      board s' 4 0 = EMPTY \<and> board s' 5 0 = SHIP \<and>
      count_row (board s') 8 BLOCK = 1 \<and> count_row (board s') 8 STAR = 1"
    by (rule exI[of _ s'], rule exI[of _ rng'], rule e)
  have r: "shd demo_rng mod 3 + 1 = 2" "shd (stl demo_rng) mod 2 = 1"
    by (simp_all add: demo_rng_def)
  note K = D[THEN conjunct2, THEN spec, THEN spec, THEN mp, OF update_demo]
  from K have k1: "ship_row demo_state \<longrightarrow> ship_row demo_next" by (elim conjE)
  from K have k2: "count_row (board demo_next) 8 BLOCK = shd demo_rng mod 3 + 1"
    by (elim conjE)
  from K have k3: "count_row (board demo_next) 8 STAR = shd (stl demo_rng) mod 2"
    by (elim conjE)
  from k1 k2 k3 r ship_row_demo have 5: "ship_row demo_next"
    "count_row (board demo_next) 8 BLOCK = 2" "count_row (board demo_next) 8 STAR = 1"
    by simp_all
  from E 5 c moves_demo in_grid_demo recurring_nats update_demo ship_row_demo
  show ?thesis by (intro conjI)
qed

text \<open>
  C5. In a tick on a state that is not game over, if the score is 49 when the movement
  and collision part of the tick is done, \<open>update\<close> returns with \<open>game_over\<close> set; in
  particular a tick that collects a star at score 48 ends with the score at 49 and
  \<open>game_over\<close> set.
\<close>

theorem win_at_49:
  "(game_over s \<noteq> 1 \<and> movement s rng = Some (t, rng') \<and> score t = 49 \<longrightarrow>
      update s rng = Some (finish t, rng') \<and> game_over (finish t) = 1) \<and>
   (moves s \<and> in_grid s \<and> ahead s = STAR \<and> score s = 48 \<and>
    update s rng = Some (s', rng') \<longrightarrow> score s' = 49 \<and> game_over s' = 1)"
proof (intro conjI impI)
  assume a: "game_over s \<noteq> 1 \<and> movement s rng = Some (t, rng') \<and> score t = 49"
  then show "update s rng = Some (finish t, rng')" by (simp add: update_def)
  from a show "game_over (finish t) = 1" by (simp add: finish_fields)
next
  assume b: "moves s \<and> in_grid s \<and> ahead s = STAR \<and> score s = 48 \<and>
    update s rng = Some (s', rng')"
  then have m: "moves s" and g: "in_grid s" and u: "update s rng = Some (s', rng')" by simp_all
  note T = tick_result[OF m g u] and F = after_collision_fields[OF m g]
  from b show "score s' = 49" by (simp add: T(3) F STAR_def)
  from b show "game_over s' = 1" by (simp add: T(5) F STAR_def)
qed

theorem win_at_49_witness:
  "game_over demo_state \<noteq> 1 \<and>
   movement demo_state demo_rng =
     Some (demo_next\<lparr>game_over := 0, controls_right := True\<rparr>, zeros) \<and>
   score (demo_next\<lparr>game_over := 0, controls_right := True\<rparr>) = 49 \<and>
   moves demo_state \<and> in_grid demo_state \<and> ahead demo_state = STAR \<and>
   score demo_state = 48 \<and> update demo_state demo_rng = Some (demo_next, zeros) \<and>
   score demo_next = 49 \<and> game_over demo_next = 1"
proof -
  have a: "ahead demo_state = STAR"
    by (simp add: ahead_def new_x_def demo_state_def demo_board_def STAR_def)
  have d: "score demo_state = 48" "game_over demo_state \<noteq> 1"
    "score (demo_next\<lparr>game_over := 0, controls_right := True\<rparr>) = 49"
    by (simp_all add: demo_state_def demo_next_def)
  from win_at_49[of demo_state demo_rng "demo_next\<lparr>game_over := 0, controls_right := True\<rparr>"
      zeros demo_next]
    a d movement_demo update_demo moves_demo in_grid_demo
  show ?thesis by simp
qed

text \<open>
  C6. In every state reachable from the constructor by calls of \<open>handle_event\<close> and
  \<open>update\<close>, exactly one cell of row 0 holds SHIP, and its column is \<open>ship_x\<close>: the
  columns of row 0 that hold SHIP are the one-element list \<open>[ship_x]\<close>.
\<close>

theorem one_ship_in_row_0:
  assumes "reachable s"
  shows "filter (\<lambda>x. board s x 0 = SHIP) [0..<board_size_x] = [ship_x s]"
proof -
  from reachable_ship_row[OF assms] have
    x: "ship_x s < board_size_x" and
    r: "\<forall>x < board_size_x. board s x 0 = (if x = ship_x s then SHIP else EMPTY)"
    by (simp_all add: ship_row_def)
  have "filter (\<lambda>x. board s x 0 = SHIP) [0..<board_size_x] =
        filter (\<lambda>x. x = ship_x s) [0..<board_size_x]"
    using r by (intro filter_cong) (auto simp: SHIP_def EMPTY_def)
  with filter_eq_single[OF x] show ?thesis by simp
qed

theorem one_ship_in_row_0_witness:
  "reachable start_state \<and>
   filter (\<lambda>x. board start_state x 0 = SHIP) [0..<board_size_x] = [ship_x start_state] \<and>
   ship_x start_state = 4 \<and> board start_state 4 0 = SHIP"
proof -
  have "ship_x start_state = 4" "board start_state 4 0 = SHIP"
    by (simp_all add: start_state_def SHIP_def)
  with one_ship_in_row_0[OF reachable_start] reachable_start show ?thesis by simp
qed

text \<open>
  C7, as stated (a tick with the left key pending at \<open>ship_x = 0\<close> produces no state
  change), fails twice. When the right key is pending as well, the first test of
  \<open>update\<close> fails at column 0, the \<open>else if\<close> then moves the ship right, and row 8 is
  respawned. And with the left key alone, the tick still clears the pending flag, so the
  state it returns is not the state it was given.
\<close>

theorem both_keys_at_column_0:
  "controls_left (state_at 0 True True) \<and> ship_x (state_at 0 True True) = 0 \<and>
   update (state_at 0 True True) zeros \<noteq> None \<and>
   ship_x (fst (the (update (state_at 0 True True) zeros))) = 1 \<and>
   board (state_at 0 True True) 0 8 = EMPTY \<and>
   board (fst (the (update (state_at 0 True True) zeros))) 0 8 = BLOCK \<and>
   controls_left (state_at 0 True False) \<and> ship_x (state_at 0 True False) = 0 \<and>
   update (state_at 0 True False) zeros \<noteq> None \<and>
   \<not> controls_left (fst (the (update (state_at 0 True False) zeros))) \<and>
   fst (the (update (state_at 0 True False) zeros)) \<noteq> state_at 0 True False"
proof -
  have m: "moves (state_at 0 True True)" by (simp add: moves_def state_at_def)
  have g: "in_grid (state_at 0 True True)"
    by (simp add: in_grid_def state_at_def board_size_x_def)
  have n: "new_x (state_at 0 True True) = 1" by (simp add: new_x_def state_at_def)
  have a: "controls_left (state_at 0 True True) \<and> ship_x (state_at 0 True True) = 0 \<and>
      update (state_at 0 True True) zeros \<noteq> None \<and>
      ship_x (fst (the (update (state_at 0 True True) zeros))) = 1 \<and>
      board (state_at 0 True True) 0 8 = EMPTY \<and>
      board (fst (the (update (state_at 0 True True) zeros))) 0 8 = BLOCK"
    by (simp add: update_zeros[OF m] finish_fields after_collision_fields[OF m g] n
        set_cell_apply)
      (simp add: state_at_def EMPTY_def BLOCK_def)
  have "movement (state_at 0 True False) zeros = Some (state_at 0 True False, zeros)"
    by (rule movement_stays) (simp_all add: state_at_def)
  moreover have "game_over (state_at 0 True False) \<noteq> 1" by (simp add: state_at_def)
  ultimately have u: "update (state_at 0 True False) zeros =
      Some (finish (state_at 0 True False), zeros)"
    by (simp add: update_def)
  have c: "controls_left (state_at 0 True False)" "ship_x (state_at 0 True False) = 0"
    by (simp_all add: state_at_def)
  have f: "\<not> controls_left (finish (state_at 0 True False))" by (simp add: finish_fields)
  with c(1) have "finish (state_at 0 True False) \<noteq> state_at 0 True False" by auto
  with a u c f show ?thesis by simp
qed

text \<open>
  C7, amended. A call of \<open>update\<close> with the left key pending at \<open>ship_x = 0\<close> and the right
  key not pending, or with the right key pending at \<open>ship_x = 8\<close> and the left key not
  pending, returns without drawing, and the grid, \<open>ship_x\<close>, \<open>ship_y\<close>, score and lives are
  as before: no shift and no respawn. What the call changes is what every tick of a game
  that is not over changes at its end: both pending flags are cleared, and \<open>game_over\<close>
  is set when the score is 49. When \<open>game_over\<close> is set already, the state is returned as
  it is.
\<close>

theorem boundary_tick:
  assumes "(controls_left s \<and> ship_x s = 0 \<and> \<not> controls_right s) \<or>
           (controls_right s \<and> ship_x s = 8 \<and> \<not> controls_left s)"
  shows "update s rng = Some (if game_over s = 1 then s else finish s, rng) \<and>
         (\<exists>s'. update s rng = Some (s', rng) \<and> board s' = board s \<and>
              ship_x s' = ship_x s \<and> ship_y s' = ship_y s \<and>
              score s' = score s \<and> lives s' = lives s \<and>
              (if game_over s = 1 then s' = s
               else \<not> controls_left s' \<and> \<not> controls_right s' \<and>
                    game_over s' = (if score s = 49 then 1 else game_over s)))"
proof (cases "game_over s = 1")
  case True
  then show ?thesis by (simp add: update_def)
next
  case False
  from assms have "movement s rng = Some (s, rng)" by (intro movement_stays) auto
  with False show ?thesis by (simp add: update_def finish_fields)
qed

theorem boundary_tick_witness:
  "controls_left (state_at 0 True False) \<and> ship_x (state_at 0 True False) = 0 \<and>
   \<not> controls_right (state_at 0 True False) \<and>
   update (state_at 0 True False) demo_rng = Some (finish (state_at 0 True False), demo_rng) \<and>
   (\<exists>s'. update (state_at 0 True False) demo_rng = Some (s', demo_rng) \<and>
         board s' = board (state_at 0 True False) \<and> ship_x s' = 0 \<and>
         score s' = 0 \<and> lives s' = 3 \<and> game_over s' = 0 \<and>
         \<not> controls_left s' \<and> \<not> controls_right s')"
proof -
  have f: "controls_left (state_at 0 True False)" "ship_x (state_at 0 True False) = 0"
    "\<not> controls_right (state_at 0 True False)"
    "score (state_at 0 True False) = 0" "lives (state_at 0 True False) = 3"
    "game_over (state_at 0 True False) = 0"
    by (simp_all add: state_at_def)
  from f(1-3) have "(controls_left (state_at 0 True False) \<and> ship_x (state_at 0 True False) = 0 \<and>
      \<not> controls_right (state_at 0 True False)) \<or>
     (controls_right (state_at 0 True False) \<and> ship_x (state_at 0 True False) = 8 \<and>
      \<not> controls_left (state_at 0 True False))" by simp
  from boundary_tick[OF this, of demo_rng] f show ?thesis by (simp add: finish_fields)
qed

text \<open>
  C8. A call of \<open>update\<close> with neither key pending returns, and leaves the grid, the
  score and the lives as they were.
\<close>

theorem no_input_tick:
  assumes "\<not> controls_left s" and "\<not> controls_right s"
  shows "\<exists>s'. update s rng = Some (s', rng) \<and>
              board s' = board s \<and> score s' = score s \<and> lives s' = lives s"
proof (cases "game_over s = 1")
  case True
  then show ?thesis by (simp add: update_def)
next
  case False
  from assms have "movement s rng = Some (s, rng)" by (intro movement_stays) simp_all
  with False show ?thesis by (simp add: update_def finish_fields)
qed

theorem no_input_tick_witness:
  "\<not> controls_left (state_at 4 False False) \<and> \<not> controls_right (state_at 4 False False) \<and>
   (\<exists>s'. update (state_at 4 False False) demo_rng = Some (s', demo_rng) \<and>
         board s' = board (state_at 4 False False) \<and> score s' = 0 \<and> lives s' = 3)"
proof -
  have f: "\<not> controls_left (state_at 4 False False)" "\<not> controls_right (state_at 4 False False)"
    "score (state_at 4 False False) = 0" "lives (state_at 4 False False) = 3"
    by (simp_all add: state_at_def)
  from no_input_tick[OF f(1,2), of demo_rng] f show ?thesis by simp
qed

text \<open>
  C9, as stated (the rejection loops end for every sequence of draws), fails: when the
  draws ask for two blocks and then offer column 0 for ever, the second placement loop
  never finds an EMPTY cell, and neither the constructor nor a tick that moves the ship
  returns.
\<close>

theorem loop_runs_forever:
  "Game header_state stuck_rng = None \<and>
   moves (state_at 4 False True) \<and> update (state_at 4 False True) stuck_rng = None"
proof -
  let ?b1 = "set_cell (clear_board (board header_state)) 4 0 0"
  have "[2..<board_size_y] = 2 # [3..<board_size_y]"
    by (simp add: board_size_y_def upt_conv_Cons)
  moreover have "fill_row ?b1 2 stuck_rng = None"
    by (rule fill_row_stuck)
      (simp add: set_cell_apply clear_board_apply board_size_x_def board_size_y_def)
  ultimately have "fill_rows [2..<board_size_y] ?b1 stuck_rng = None" by simp
  then have g: "Game header_state stuck_rng = None" by (simp add: Game_def Let_def)
  have m: "moves (state_at 4 False True)" by (simp add: moves_def state_at_def)
  then have "game_over (state_at 4 False True) \<noteq> 1" by (simp add: moves_def)
  then have "update (state_at 4 False True) stuck_rng = None"
    by (simp add: update_def movement_moves[OF m] respawn_stuck)
  with g m show ?thesis by simp
qed

text \<open>
  C9, amended. A rejection loop ends exactly when some later draw lands on an EMPTY cell
  of the row it fills. The constructor and \<open>update\<close> return for every sequence of draws
  in which each column 0..8 keeps coming back; and a row always keeps EMPTY cells for the
  draws to find, since at most 4 of its 9 cells are ever taken: each row 2..8 that the
  constructor has filled, and row 8 after a respawn, have at least 5 EMPTY cells.
\<close>

theorem loops_return_on_recurring_draws:
  "((\<exists>r. find_empty b i rng = Some r) \<longleftrightarrow> (\<exists>n. b (rng !! n mod 9) i = EMPTY)) \<and>
   (recurring rng \<longrightarrow> (\<exists>r. Game pre rng = Some r) \<and> (\<exists>r. update s rng = Some r)) \<and>
   (Game pre rng = Some (g, rng') \<longrightarrow> (\<forall>j \<in> {2..8}. 5 \<le> count_row (board g) j EMPTY)) \<and>
   (moves s \<and> update s rng = Some (s', rng') \<longrightarrow> 5 \<le> count_row (board s') 8 EMPTY)"
proof (intro conjI impI ballI)
  show "(\<exists>r. find_empty b i rng = Some r) \<longleftrightarrow> (\<exists>n. b (rng !! n mod 9) i = EMPTY)"
    unfolding EMPTY_def by (rule find_empty_iff)
next
  assume "recurring rng"
  then show "\<exists>r. Game pre rng = Some r" by (rule Game_returns)
next
  assume "recurring rng"
  then show "\<exists>r. update s rng = Some r" by (rule update_returns)
next
  fix j :: nat
  assume "Game pre rng = Some (g, rng')" and "j \<in> {2..8}"
  then show "5 \<le> count_row (board g) j EMPTY"
    unfolding EMPTY_def by (intro Game_empty_count) (auto simp: board_size_y_def)
next
  assume "moves s \<and> update s rng = Some (s', rng')"
  then have m: "moves s" and u: "update s rng = Some (s', rng')" by simp_all
  from update_moves[OF m u] obtain b where
    r: "respawn (shift_rows (board (after_collision s))) rng = Some (b, rng')" and
    s': "s' = finish ((after_collision s)\<lparr>board := b\<rparr>)" by blast
  from respawn_empty_count[OF r] show "5 \<le> count_row (board s') 8 EMPTY"
    unfolding s' EMPTY_def by (simp add: finish_fields)
qed

theorem loops_return_on_recurring_draws_witness:
  "recurring nats \<and>
   (\<exists>r. Game header_state nats = Some r) \<and> (\<exists>r. update demo_state nats = Some r) \<and>
   demo_board (nats !! 0 mod 9) 1 = EMPTY \<and> (\<exists>r. find_empty demo_board 1 nats = Some r) \<and>
   Game header_state zeros = Some (start_state, zeros) \<and>
   5 \<le> count_row (board start_state) 2 EMPTY \<and>
   moves demo_state \<and> update demo_state demo_rng = Some (demo_next, zeros) \<and>
   5 \<le> count_row (board demo_next) 8 EMPTY"
proof -
  note A = loops_return_on_recurring_draws[where b = demo_board and i = 1 and rng = nats
      and pre = header_state and s = demo_state]
  note B = loops_return_on_recurring_draws[where rng = zeros and pre = header_state
      and g = start_state and rng' = zeros]
  note C = loops_return_on_recurring_draws[where rng = demo_rng and s = demo_state
      and s' = demo_next and rng' = zeros]
  have e: "demo_board (nats !! 0 mod 9) 1 = EMPTY"
    by (simp add: demo_board_def EMPTY_def)
  then have "\<exists>n. demo_board (nats !! n mod 9) 1 = EMPTY" ..
  with A have 1: "\<exists>r. find_empty demo_board 1 nats = Some r" by blast
  from A recurring_nats have 2: "\<exists>r. Game header_state nats = Some r"
    and 3: "\<exists>r. update demo_state nats = Some r" by blast+
  from B Game_start have 4: "5 \<le> count_row (board start_state) 2 EMPTY" by simp
  from C moves_demo update_demo have 5: "5 \<le> count_row (board demo_next) 8 EMPTY" by simp
  from 1 2 3 4 5 e recurring_nats Game_start moves_demo update_demo show ?thesis by blast
qed

text \<open>
  C10. In every reachable state, every cell of row 0 other than the ship's is EMPTY, and
  no cell of row 0 holds a BLOCK or a STAR.
\<close>

theorem row_0_free_of_obstacles:
  assumes "reachable s"
  shows "(\<forall>x < board_size_x. x \<noteq> ship_x s \<longrightarrow> board s x 0 = EMPTY) \<and>
         (\<forall>x < board_size_x. board s x 0 \<noteq> BLOCK \<and> board s x 0 \<noteq> STAR)"
  using reachable_ship_row[OF assms]
  by (simp add: ship_row_def EMPTY_def SHIP_def BLOCK_def STAR_def)

text \<open>
  The state after the right key went down and one tick followed.
\<close>

theorem row_0_free_of_obstacles_witness:
  "reachable played_state \<and> ship_x played_state = 5 \<and>
   board played_state 0 0 = EMPTY \<and> board played_state 4 0 = EMPTY \<and>
   board played_state 8 0 = EMPTY \<and>
   board played_state 5 0 \<noteq> BLOCK \<and> board played_state 5 0 \<noteq> STAR"
proof -
  note R = row_0_free_of_obstacles[OF reachable_played]
  from R have "\<forall>x < board_size_x. x \<noteq> 5 \<longrightarrow> board played_state x 0 = EMPTY"
    by (simp add: ship_x_played)
  then have "board played_state 0 0 = EMPTY" "board played_state 4 0 = EMPTY"
    "board played_state 8 0 = EMPTY"
    by (simp_all add: board_size_x_def)
  moreover from R have "board played_state 5 0 \<noteq> BLOCK \<and> board played_state 5 0 \<noteq> STAR"
    by (simp add: board_size_x_def)
  ultimately show ?thesis using reachable_played ship_x_played by simp
qed

end
